theory Spec2Isabelle
  imports Complex_Main
begin

section \<open>Board columns and cards of src/routes/projects.js\<close>

text \<open>
  The route file works on plain JavaScript objects. An object is modelled as a record
  whose fields are options: \<open>None\<close> is a property that is absent (or \<open>null\<close>,
  \<open>undefined\<close>, or not of the type the code tests for), \<open>Some v\<close> a property that is
  present. Strings are lists of 8-bit characters, identifiers of users and projects are
  strings, numbers are finite and modelled as rationals. The same record serves for what a
  client sends and for what the normaliser returns, as the same objects do in the source.
\<close>

subsection \<open>The runtime\<close>

text \<open>
  Three things come from the JavaScript runtime and not from the repository: the clock
  read by \<open>new Date()\<close>, the parser behind \<open>new Date(string)\<close> and the collation
  behind \<open>String.prototype.localeCompare\<close>. They are passed to every function that
  uses them.
\<close>

record env =
  now :: int
  parseDate :: "string \<Rightarrow> int option"
  localeCompare :: "string \<Rightarrow> string \<Rightarrow> int"

text \<open>
  A due date as the code can meet it: a string or a number from a JSON body, or a Date
  object (from the store, or made by the normaliser); the time value of an invalid Date
  is \<open>None\<close>.
\<close>

datatype date_value = DateString string | DateNumber int | DateObject "int option"

fun dateTruthy :: "date_value \<Rightarrow> bool" where
  "dateTruthy (DateString s) = (s \<noteq> [])"
| "dateTruthy (DateNumber n) = (n \<noteq> 0)"
| "dateTruthy (DateObject t) = True"

definition timeClip :: "int \<Rightarrow> int option" where
  "timeClip n = (if \<bar>n\<bar> \<le> 8640000000000000 then Some n else None)"

fun newDate :: "env \<Rightarrow> date_value \<Rightarrow> date_value" where
  "newDate e (DateString s) = DateObject (parseDate e s)"
| "newDate e (DateNumber n) = DateObject (timeClip n)"
| "newDate e (DateObject t) = DateObject t"

subsection \<open>Strings\<close>

definition isSpace :: "char \<Rightarrow> bool" where
  "isSpace c = (of_char c \<in> {9, 10, 11, 12, 13, 32, 160 :: nat})"

definition trim :: "string \<Rightarrow> string" where
  "trim s = rev (dropWhile isSpace (rev (dropWhile isSpace s)))"

definition toLowerChar :: "char \<Rightarrow> char" where
  "toLowerChar c =
     (let n = of_char c :: nat
      in if (65 \<le> n \<and> n \<le> 90) \<or> (192 \<le> n \<and> n \<le> 222 \<and> n \<noteq> 215)
         then char_of (n + 32) else c)"

definition toLowerCase :: "string \<Rightarrow> string" where
  "toLowerCase s = map toLowerChar s"

definition digitChar :: "nat \<Rightarrow> char" where
  "digitChar n = char_of (48 + n)"

function decimal :: "nat \<Rightarrow> string" where
  "decimal n = (if n < 10 then [digitChar n] else decimal (n div 10) @ [digitChar (n mod 10)])"
  by pat_completeness auto
termination
  by (relation "measure id") auto

declare decimal.simps [simp del]

text \<open>\<open>v || d\<close> on a string property: the empty string is falsy.\<close>

definition orElse :: "string option \<Rightarrow> string \<Rightarrow> string" where
  "orElse v d = (case v of None \<Rightarrow> d | Some s \<Rightarrow> if s = [] then d else s)"

subsection \<open>Cards and columns\<close>

text \<open>
  The fields of a card and of a column are those of the schema of the Project model. A
  column that a client sends may also carry \<open>defaultCard\<close>, which the normaliser reads
  through the object spread; \<open>Some b\<close> stands for a property that is present and
  truthy (\<open>b\<close> true) or falsy.
\<close>

record card =
  title :: "string option"
  description :: "string option"
  status :: "string option"
  assignee :: "string option"
  dueDate :: "date_value option"

record column =
  name :: "string option"
  order :: "rat option"
  cards :: "card list option"
  defaultCard :: "bool option"

text \<open>\<open>Array.prototype.map\<close> with the index passed to the callback.\<close>

primrec mapFrom :: "nat \<Rightarrow> (nat \<Rightarrow> 'a \<Rightarrow> 'b) \<Rightarrow> 'a list \<Rightarrow> 'b list" where
  "mapFrom k f [] = []"
| "mapFrom k f (x # xs) = f k x # mapFrom (Suc k) f xs"

definition mapIndexed :: "(nat \<Rightarrow> 'a \<Rightarrow> 'b) \<Rightarrow> 'a list \<Rightarrow> 'b list" where
  "mapIndexed f xs = mapFrom 0 f xs"

definition emptyObject :: column where
  "emptyObject = \<lparr>name = None, order = None, cards = None, defaultCard = None\<rparr>"

definition DEFAULT_BOARD_COLUMNS :: "column list" where
  "DEFAULT_BOARD_COLUMNS =
     [emptyObject\<lparr>name := Some ''To Do'', defaultCard := Some True\<rparr>,
      emptyObject\<lparr>name := Some ''In Progress''\<rparr>,
      emptyObject\<lparr>name := Some ''In Review''\<rparr>,
      emptyObject\<lparr>name := Some ''Done''\<rparr>]"

definition createDefaultCards :: "env \<Rightarrow> column \<Rightarrow> card list" where
  "createDefaultCards e columnConfig =
     (if defaultCard columnConfig \<noteq> Some True then []
      else
        [\<lparr>title = Some ''Task 1'',
          description = Some ''Scrum 1 default work item'',
          status = Some (orElse (name columnConfig) ''To Do''),
          assignee = None,
          dueDate = Some (DateObject (Some (now e)))\<rparr>])"

text \<open>The object spread \<open>{...a, ...b}\<close>: a property of \<open>b\<close> that is present wins.\<close>

definition spread :: "column \<Rightarrow> column \<Rightarrow> column" where
  "spread a b =
     \<lparr>name = (case name b of None \<Rightarrow> name a | Some v \<Rightarrow> Some v),
      order = (case order b of None \<Rightarrow> order a | Some v \<Rightarrow> Some v),
      cards = (case cards b of None \<Rightarrow> cards a | Some v \<Rightarrow> Some v),
      defaultCard = (case defaultCard b of None \<Rightarrow> defaultCard a | Some v \<Rightarrow> Some v)\<rparr>"

definition prepareCard :: "env \<Rightarrow> string \<Rightarrow> card \<Rightarrow> card" where
  "prepareCard e columnName c =
     \<lparr>title = Some (orElse (title c) ''Scrum 1''),
      description = Some (orElse (description c) []),
      status = Some (orElse (status c) columnName),
      assignee = (case assignee c of None \<Rightarrow> None | Some a \<Rightarrow> if a = [] then None else Some a),
      dueDate = Some (case dueDate c of
                        None \<Rightarrow> DateObject (Some (now e))
                      | Some d \<Rightarrow> if dateTruthy d then newDate e d else DateObject (Some (now e)))\<rparr>"

definition fallbackColumnAt :: "nat \<Rightarrow> column" where
  "fallbackColumnAt index =
     (if index < length DEFAULT_BOARD_COLUMNS then DEFAULT_BOARD_COLUMNS ! index else emptyObject)"

text \<open>The callback that \<open>normalizeColumns\<close> maps over a list that is not empty.\<close>

definition normalizeColumn :: "env \<Rightarrow> bool \<Rightarrow> nat \<Rightarrow> column \<Rightarrow> column" where
  "normalizeColumn e enforceDefaultCard index col =
     (let fallbackColumn = fallbackColumnAt index;
          columnName = orElse (name col)
                         (orElse (name fallbackColumn) (''Column '' @ decimal (index + 1)));
          preparedCards = (case cards col of
                             None \<Rightarrow> []
                           | Some cs \<Rightarrow> map (prepareCard e columnName) cs);
          cs' = (if preparedCards \<noteq> [] then preparedCards
                 else if enforceDefaultCard
                   then createDefaultCards e ((spread fallbackColumn col)\<lparr>name := Some columnName\<rparr>)
                   else [])
      in \<lparr>name = Some columnName,
          order = (case order col of None \<Rightarrow> Some (of_nat (index + 1)) | Some v \<Rightarrow> Some v),
          cards = Some cs',
          defaultCard = None\<rparr>)"

definition normalizeColumns :: "env \<Rightarrow> column list \<Rightarrow> bool \<Rightarrow> column list" where
  "normalizeColumns e columns enforceDefaultCard =
     (if columns = []
      then mapIndexed
             (\<lambda>index column.
                \<lparr>name = name column,
                 order = Some (of_nat (index + 1)),
                 cards = Some (createDefaultCards e column),
                 defaultCard = None\<rparr>)
             DEFAULT_BOARD_COLUMNS
      else mapIndexed (normalizeColumn e enforceDefaultCard) columns)"


definition normalizeExistingColumns :: "env \<Rightarrow> column list \<Rightarrow> bool \<Rightarrow> bool \<Rightarrow> column list" where
  "normalizeExistingColumns e columns enforceDefaultCard fallbackToDefault =
     (if columns = []
      then (if fallbackToDefault then normalizeColumns e [] enforceDefaultCard else [])
      else normalizeColumns e columns enforceDefaultCard)"

definition normalizeColumnName :: "string option \<Rightarrow> string" where
  "normalizeColumnName v = trim (orElse v [])"

primrec findIndex :: "('a \<Rightarrow> bool) \<Rightarrow> 'a list \<Rightarrow> nat option" where
  "findIndex P [] = None"
| "findIndex P (x # xs) = (if P x then Some 0 else map_option Suc (findIndex P xs))"

text \<open>The source's \<open>-1\<close> for "no such column" is \<open>None\<close>.\<close>

definition findColumnIndex :: "column list \<Rightarrow> string \<Rightarrow> nat option" where
  "findColumnIndex columns searchName =
     (let normalizedSearch = toLowerCase (normalizeColumnName (Some searchName))
      in if normalizedSearch = [] then None
         else findIndex
                (\<lambda>column. toLowerCase (normalizeColumnName (name column)) = normalizedSearch)
                columns)"

definition MAX_SAFE_INTEGER :: rat where
  "MAX_SAFE_INTEGER = 9007199254740991"

text \<open>The comparator handed to \<open>Array.prototype.sort\<close> in \<open>sortColumnsByOrder\<close>.\<close>

definition compareColumns :: "env \<Rightarrow> column \<Rightarrow> column \<Rightarrow> rat" where
  "compareColumns e a b =
     (let orderA = (case order a of Some v \<Rightarrow> v | None \<Rightarrow> MAX_SAFE_INTEGER);
          orderB = (case order b of Some v \<Rightarrow> v | None \<Rightarrow> MAX_SAFE_INTEGER)
      in if orderA = orderB
         then of_int (localeCompare e (normalizeColumnName (name a)) (normalizeColumnName (name b)))
         else orderA - orderB)"

text \<open>
  \<open>Array.prototype.sort\<close> is stable; it is modelled by the stable insertion sort, which
  puts an element before the first element it does not compare greater than.
\<close>

primrec insertSorted :: "('a \<Rightarrow> 'a \<Rightarrow> rat) \<Rightarrow> 'a \<Rightarrow> 'a list \<Rightarrow> 'a list" where
  "insertSorted cmp x [] = [x]"
| "insertSorted cmp x (y # ys) =
     (if cmp x y \<le> 0 then x # y # ys else y # insertSorted cmp x ys)"

definition sortWith :: "('a \<Rightarrow> 'a \<Rightarrow> rat) \<Rightarrow> 'a list \<Rightarrow> 'a list" where
  "sortWith cmp xs = foldr (insertSorted cmp) xs []"

definition sortColumnsByOrder :: "env \<Rightarrow> column list \<Rightarrow> column list" where
  "sortColumnsByOrder e columns = sortWith (compareColumns e) columns"

definition reindexColumns :: "column list \<Rightarrow> column list" where
  "reindexColumns columns =
     mapIndexed (\<lambda>idx column. column\<lparr>order := Some (of_nat (idx + 1))\<rparr>) columns"

definition sanitizeColumns :: "env \<Rightarrow> column list \<Rightarrow> bool \<Rightarrow> bool \<Rightarrow> column list" where
  "sanitizeColumns e columns enforceDefaultCard fallbackToDefault =
     (let preparedColumns = normalizeExistingColumns e columns enforceDefaultCard fallbackToDefault
      in if preparedColumns = [] then []
         else reindexColumns (sortColumnsByOrder e preparedColumns))"

text \<open>\<open>ignoreIndex\<close> is \<open>None\<close> for the source's default \<open>-1\<close>.\<close>

definition columnNameExists :: "column list \<Rightarrow> string \<Rightarrow> nat option \<Rightarrow> bool" where
  "columnNameExists columns nm ignoreIndex =
     (let normalized = toLowerCase (normalizeColumnName (Some nm))
      in if normalized = [] then False
         else list_ex
                (\<lambda>(idx, column).
                   Some idx \<noteq> ignoreIndex \<and>
                   toLowerCase (normalizeColumnName (name column)) = normalized)
                (zip [0..<length columns] columns))"

text \<open>The cards of a column whose \<open>cards\<close> property is an array, else none.\<close>

definition cardsOf :: "column \<Rightarrow> card list" where
  "cardsOf c = (case cards c of None \<Rightarrow> [] | Some cs \<Rightarrow> cs)"

text \<open>
  \<open>Array.prototype.splice\<close>: a negative start counts from the end, and the start is
  clamped to the array.
\<close>

definition spliceStart :: "nat \<Rightarrow> int \<Rightarrow> nat" where
  "spliceStart len start =
     (if start < 0 then nat (max (int len + start) 0) else min (nat start) len)"

definition spliceInsert :: "'a list \<Rightarrow> int \<Rightarrow> 'a \<Rightarrow> 'a list" where
  "spliceInsert xs start x =
     (let k = spliceStart (length xs) start in take k xs @ x # drop k xs)"

definition spliceRemove :: "'a list \<Rightarrow> nat \<Rightarrow> 'a list" where
  "spliceRemove xs k = take k xs @ drop (Suc k) xs"

subsection \<open>Projects, the store and the responses\<close>

datatype member_role = RoleOwner | RoleCollaborator

record member =
  user :: string
  role :: member_role
  addedBy :: string
  joinedAt :: int

datatype invite_status = Pending | Accepted | Cancelled

record invite =
  email :: string
  invitedBy :: string
  inviteStatus :: invite_status
  invitedAt :: int
  acceptedAt :: "int option"
  cancelledAt :: "int option"

text \<open>
  Of a project document the model keeps what the board and the membership routes read and
  write; the metadata (name, description, status, board type, sprint) is left out.
\<close>

record project =
  owner :: string
  members :: "member list"
  invites :: "invite list"
  columns :: "column list"

text \<open>The collection of projects, by identifier.\<close>

type_synonym db = "string \<Rightarrow> project option"

text \<open>
  \<open>Project.findOne(buildProjectAccessQuery(projectId, userId))\<close>: the project with
  this identifier, when the user owns it or is one of its members.
\<close>

definition findProject :: "db \<Rightarrow> string \<Rightarrow> string \<Rightarrow> project option" where
  "findProject d projectId userId =
     (case d projectId of
        None \<Rightarrow> None
      | Some p \<Rightarrow> if owner p = userId \<or> userId \<in> set (map user (members p))
                  then Some p else None)"

text \<open>
  The JSON body of a response. Of the extra properties the model keeps one per route: the
  columns for the column routes, the project for the project routes, the results for the
  invitation route. The routes catch every exception and answer 500; with inputs of the
  types modelled here no statement of theirs throws.
\<close>

record 'a response =
  success :: bool
  statusCode :: nat
  message :: string
  extra :: "'a option"

definition sendResponse :: "nat \<Rightarrow> string \<Rightarrow> 'a option \<Rightarrow> 'a response" where
  "sendResponse code msg ex =
     \<lparr>success = (200 \<le> code \<and> code < 400), statusCode = code, message = msg, extra = ex\<rparr>"

subsection \<open>The bodies of the column requests\<close>

text \<open>
  The \<open>order\<close> of a body: missing, \<open>null\<close>, a number, or any other value, which carries
  what \<open>Number(.)\<close> makes of it when that is finite. The \<open>cards\<close> of a body: missing,
  \<open>null\<close>, an array, or any other value.
\<close>

datatype order_field = OrderUndefined | OrderNull | OrderNumber rat | OrderOther "rat option"

datatype cards_field = CardsUndefined | CardsNull | CardsArray "card list" | CardsOther

record column_body =
  bodyName :: "string option"
  bodyOrder :: order_field
  bodyCards :: cards_field

fun toNumber :: "order_field \<Rightarrow> rat option" where
  "toNumber OrderUndefined = None"
| "toNumber OrderNull = Some 0"
| "toNumber (OrderNumber q) = Some q"
| "toNumber (OrderOther r) = r"

fun orderProperty :: "order_field \<Rightarrow> rat option" where
  "orderProperty (OrderNumber q) = Some q"
| "orderProperty _ = None"

fun cardsProperty :: "cards_field \<Rightarrow> card list option" where
  "cardsProperty (CardsArray cs) = Some cs"
| "cardsProperty _ = None"

subsection \<open>Creating a column\<close>

text \<open>
  Each mutating route reads the project, works on the sanitised columns in memory and
  writes once at the end. The work in memory is a function of its own, which yields the
  columns to write or the status and message of the rejection.
\<close>

definition createColumnEdit ::
  "env \<Rightarrow> column list \<Rightarrow> string \<Rightarrow> column_body \<Rightarrow> (nat \<times> string) + column list" where
  "createColumnEdit e stored normalizedName body =
     (let cols = sanitizeColumns e stored False False
      in if columnNameExists cols normalizedName None
         then Inl (409, ''Column already exists'')
         else
           (case normalizeColumns e
                   [\<lparr>name = Some normalizedName, order = orderProperty (bodyOrder body),
                     cards = cardsProperty (bodyCards body), defaultCard = None\<rparr>] False of
              [] \<Rightarrow> Inl (500, ''Something went wrong. Please try again.'')
            | preparedColumn # _ \<Rightarrow>
                (let insertionIndex =
                       (case toNumber (bodyOrder body) of
                          None \<Rightarrow> int (length cols)
                        | Some parsedOrder \<Rightarrow>
                            if parsedOrder > 0
                            then min (\<lfloor>parsedOrder\<rfloor> - 1) (int (length cols))
                            else int (length cols))
                 in Inr (reindexColumns (spliceInsert cols insertionIndex preparedColumn)))))"

definition createColumnRoute ::
  "env \<Rightarrow> db \<Rightarrow> string \<Rightarrow> string \<Rightarrow> column_body \<Rightarrow> column list response \<times> db" where
  "createColumnRoute e d userId projectId body =
     (let normalizedName = normalizeColumnName (bodyName body)
      in if normalizedName = [] then (sendResponse 400 ''Column name is required'' None, d)
         else if bodyCards body = CardsNull \<or> bodyCards body = CardsOther
           then (sendResponse 400 ''Cards must be an array'' None, d)
         else
           (case findProject d projectId userId of
              None \<Rightarrow> (sendResponse 404 ''Project not found'' None, d)
            | Some p \<Rightarrow>
                (case createColumnEdit e (columns p) normalizedName body of
                   Inl (code, msg) \<Rightarrow> (sendResponse code msg None, d)
                 | Inr updatedColumns \<Rightarrow>
                     (sendResponse 201 ''Column created'' (Some updatedColumns),
                      d(projectId \<mapsto> p\<lparr>columns := updatedColumns\<rparr>)))))"

subsection \<open>Updating a column\<close>

text \<open>
  The three steps of the update (rename, replace the cards, move) change the column object
  that sits in the array; the model writes the changed column back at its index.
\<close>

definition renameColumn :: "column list \<Rightarrow> nat \<Rightarrow> string option \<Rightarrow> (nat \<times> string) + column" where
  "renameColumn cols columnIndex nm =
     (let col = cols ! columnIndex
      in case nm of
           None \<Rightarrow> Inr col
         | Some s \<Rightarrow>
             (let newName = normalizeColumnName (Some s)
              in if newName = [] then Inl (400, ''Column name cannot be empty'')
                 else if columnNameExists cols newName (Some columnIndex)
                   then Inl (409, ''Column with this name already exists'')
                 else Inr (col\<lparr>name := Some newName,
                               cards := Some (map (\<lambda>c. c\<lparr>status := Some newName\<rparr>) (cardsOf col))\<rparr>)))"

definition replaceCards :: "env \<Rightarrow> column \<Rightarrow> cards_field \<Rightarrow> column" where
  "replaceCards e col cf =
     (case cf of
        CardsArray cs \<Rightarrow>
          (case normalizeColumns e [col\<lparr>cards := Some cs\<rparr>] False of
             [] \<Rightarrow> col
           | normalizedColumn # _ \<Rightarrow> col\<lparr>cards := cards normalizedColumn\<rparr>)
      | _ \<Rightarrow> col)"

definition updateColumnEdit ::
  "env \<Rightarrow> column list \<Rightarrow> string \<Rightarrow> column_body \<Rightarrow> (nat \<times> string) + column list" where
  "updateColumnEdit e stored columnName body =
     (let cols = sanitizeColumns e stored False False
      in case findColumnIndex cols columnName of
           None \<Rightarrow> Inl (404, ''Column not found'')
         | Some columnIndex \<Rightarrow>
             (case renameColumn cols columnIndex (bodyName body) of
                Inl err \<Rightarrow> Inl err
              | Inr renamed \<Rightarrow>
                  (let cols' = cols[columnIndex := replaceCards e renamed (bodyCards body)]
                   in if bodyOrder body = OrderUndefined \<or> bodyOrder body = OrderNull
                      then Inr (reindexColumns cols')
                      else
                        (case toNumber (bodyOrder body) of
                           None \<Rightarrow> Inl (400, ''Order must be a number'')
                         | Some parsedOrder \<Rightarrow>
                             (let nextColumns = spliceRemove cols' columnIndex;
                                  targetIndex = min (max (\<lfloor>parsedOrder\<rfloor> - 1) 0)
                                                    (int (length nextColumns))
                              in Inr (reindexColumns
                                        (spliceInsert nextColumns targetIndex
                                           (cols' ! columnIndex))))))))"

definition updateColumnRoute ::
  "env \<Rightarrow> db \<Rightarrow> string \<Rightarrow> string \<Rightarrow> string \<Rightarrow> column_body \<Rightarrow> column list response \<times> db" where
  "updateColumnRoute e d userId projectId columnName body =
     (let hasUpdates =
            (bodyName body \<noteq> None \<or>
             (bodyOrder body \<noteq> OrderUndefined \<and> bodyOrder body \<noteq> OrderNull) \<or>
             cardsProperty (bodyCards body) \<noteq> None)
      in if \<not> hasUpdates
         then (sendResponse 400 ''Provide at least one field to update'' None, d)
         else if bodyCards body = CardsOther
           then (sendResponse 400 ''Cards must be an array'' None, d)
         else
           (case findProject d projectId userId of
              None \<Rightarrow> (sendResponse 404 ''Project not found'' None, d)
            | Some p \<Rightarrow>
                (case updateColumnEdit e (columns p) columnName body of
                   Inl (code, msg) \<Rightarrow> (sendResponse code msg None, d)
                 | Inr updatedColumns \<Rightarrow>
                     (sendResponse 200 ''Column updated'' (Some updatedColumns),
                      d(projectId \<mapsto> p\<lparr>columns := updatedColumns\<rparr>)))))"

subsection \<open>Deleting a column\<close>

definition deleteColumnEdit ::
  "env \<Rightarrow> column list \<Rightarrow> string \<Rightarrow> string option \<Rightarrow> (nat \<times> string) + column list" where
  "deleteColumnEdit e stored columnName targetColumn =
     (let cols = sanitizeColumns e stored False False
      in case findColumnIndex cols columnName of
           None \<Rightarrow> Inl (404, ''Column not found'')
         | Some columnIndex \<Rightarrow>
             (let removedColumn = cols ! columnIndex;
                  remaining = spliceRemove cols columnIndex
              in if cardsOf removedColumn \<noteq> []
                 then
                   (let normalizedTarget = normalizeColumnName targetColumn
                    in if normalizedTarget = []
                       then Inl (400, ''Column contains cards. Provide targetColumn or empty it before deletion'')
                       else
                         (case findColumnIndex remaining normalizedTarget of
                            None \<Rightarrow> Inl (400, ''Target column not found'')
                          | Some targetIndex \<Rightarrow>
                              (let destination = remaining ! targetIndex;
                                   migratedCards =
                                     map (\<lambda>c. c\<lparr>status := name destination\<rparr>) (cardsOf removedColumn)
                               in Inr (reindexColumns
                                         (remaining[targetIndex :=
                                            destination\<lparr>cards :=
                                              Some (cardsOf destination @ migratedCards)\<rparr>])))))
                 else Inr (reindexColumns remaining)))"

definition deleteColumnRoute ::
  "env \<Rightarrow> db \<Rightarrow> string \<Rightarrow> string \<Rightarrow> string \<Rightarrow> string option \<Rightarrow> column list response \<times> db" where
  "deleteColumnRoute e d userId projectId columnName targetColumn =
     (case findProject d projectId userId of
        None \<Rightarrow> (sendResponse 404 ''Project not found'' None, d)
      | Some p \<Rightarrow>
          (case deleteColumnEdit e (columns p) columnName targetColumn of
             Inl (code, msg) \<Rightarrow> (sendResponse code msg None, d)
           | Inr updatedColumns \<Rightarrow>
               (sendResponse 200 ''Column deleted'' (Some updatedColumns),
                d(projectId \<mapsto> p\<lparr>columns := updatedColumns\<rparr>))))"

subsection \<open>Reading the columns; creating and updating a project\<close>

text \<open>The read route; the optional lookup of requested names in its answer is left out.\<close>

definition listColumnsRoute :: "env \<Rightarrow> db \<Rightarrow> string \<Rightarrow> string \<Rightarrow> column list response" where
  "listColumnsRoute e d userId projectId =
     (case findProject d projectId userId of
        None \<Rightarrow> sendResponse 404 ''Project not found'' None
      | Some p \<Rightarrow>
          sendResponse 200 ''Board columns fetched''
            (Some (sortColumnsByOrder e (normalizeExistingColumns e (columns p) False False))))"

record project_body =
  projectName :: "string option"
  projectColumns :: "column list option"

text \<open>\<open>newId\<close> is the identifier the store gives the created document.\<close>

definition createProjectRoute ::
  "env \<Rightarrow> db \<Rightarrow> string \<Rightarrow> string \<Rightarrow> project_body \<Rightarrow> project response \<times> db" where
  "createProjectRoute e d newId userId body =
     (if orElse (projectName body) [] = []
      then (sendResponse 400 ''Project name is required'' None, d)
      else
        (let p = \<lparr>owner = userId,
                  members = [\<lparr>user = userId, role = RoleOwner, addedBy = userId, joinedAt = now e\<rparr>],
                  invites = [],
                  columns = normalizeColumns e
                              (case projectColumns body of None \<Rightarrow> [] | Some cs \<Rightarrow> cs) True\<rparr>
         in (sendResponse 201 ''Project created successfully'' (Some p), d(newId \<mapsto> p))))"

definition updateProjectRoute ::
  "env \<Rightarrow> db \<Rightarrow> string \<Rightarrow> string \<Rightarrow> project_body \<Rightarrow> project response \<times> db" where
  "updateProjectRoute e d userId projectId body =
     (case findProject d projectId userId of
        None \<Rightarrow> (sendResponse 404 ''Project not found'' None, d)
      | Some p \<Rightarrow>
          (let p' = (case projectColumns body of
                       None \<Rightarrow> p
                     | Some cs \<Rightarrow> p\<lparr>columns := normalizeColumns e cs False\<rparr>)
           in (sendResponse 200 ''Project updated'' (Some p'), d(projectId \<mapsto> p'))))"

subsection \<open>Inviting collaborators\<close>

text \<open>
  The user directory is the list of the accounts. An entry of the \<open>emails\<close> array is a
  string, or \<open>None\<close> for a value that is not a string.
\<close>

record account =
  accountId :: string
  accountEmail :: string

record invite_body =
  bodyEmail :: "string option"
  bodyEmails :: "string option list option"

record invite_results =
  addedMembers :: "string list"
  invitationsSent :: "string list"
  alreadyMembers :: "string list"
  alreadyInvited :: "string list"
  invalidEmails :: "string option list"

definition normalizeEmail :: "string option \<Rightarrow> string" where
  "normalizeEmail v = (case v of None \<Rightarrow> [] | Some s \<Rightarrow> toLowerCase (trim s))"

definition isProjectMember :: "project \<Rightarrow> string \<Rightarrow> bool" where
  "isProjectMember p userId =
     (if userId = [] then False
      else if owner p \<noteq> [] \<and> owner p = userId then True
      else list_ex (\<lambda>m. user m \<noteq> [] \<and> user m = userId) (members p))"

definition isProjectOwner :: "project \<Rightarrow> string \<Rightarrow> bool" where
  "isProjectOwner p userId =
     (if userId = [] then False else owner p \<noteq> [] \<and> owner p = userId)"

text \<open>The elements of \<open>new Set(xs)\<close> in insertion order: the first occurrence is kept.\<close>

definition setOrder :: "'a list \<Rightarrow> 'a list" where
  "setOrder xs = rev (remdups (rev xs))"

definition requestedEmails :: "invite_body \<Rightarrow> string option list" where
  "requestedEmails body =
     (case bodyEmails body of None \<Rightarrow> [] | Some es \<Rightarrow> es) @
     (case bodyEmail body of None \<Rightarrow> [] | Some s \<Rightarrow> if s = [] then [] else [Some s])"

definition normalizedEmails :: "invite_body \<Rightarrow> string list" where
  "normalizedEmails body =
     setOrder (filter (\<lambda>s. s \<noteq> []) (map normalizeEmail (requestedEmails body)))"

text \<open>
  \<open>User.find\<close> over the directory, and the \<open>Map\<close> built from its result: of two
  entries with one key the later one stays.
\<close>

definition userByEmail :: "account list \<Rightarrow> string list \<Rightarrow> string \<Rightarrow> account option" where
  "userByEmail users wanted =
     map_of (rev (map (\<lambda>u. (normalizeEmail (Some (accountEmail u)), u))
                    (filter (\<lambda>u. accountEmail u \<in> set wanted) users)))"

definition markInviteAccepted :: "env \<Rightarrow> string \<Rightarrow> invite list \<Rightarrow> invite list" where
  "markInviteAccepted e targetEmail invs =
     map (\<lambda>i. if email i = targetEmail \<and> inviteStatus i = Pending
              then i\<lparr>inviteStatus := Accepted, acceptedAt := Some (now e)\<rparr> else i) invs"

text \<open>What the loop over the normalised emails changes.\<close>

record invite_state =
  projectInvites :: "invite list"
  membersToAdd :: "member list"
  invitesToAdd :: "invite list"
  results :: invite_results

definition inviteStep ::
  "env \<Rightarrow> project \<Rightarrow> string \<Rightarrow> (string \<Rightarrow> account option) \<Rightarrow> invite_state \<Rightarrow> string \<Rightarrow> invite_state" where
  "inviteStep e p requester directory st normalizedEmail =
     (case directory normalizedEmail of
        Some existingUser \<Rightarrow>
          (if list_ex (\<lambda>m. user m = accountId existingUser) (membersToAdd st) \<or>
              isProjectMember p (accountId existingUser)
           then st\<lparr>results := (results st)\<lparr>alreadyMembers :=
                                 alreadyMembers (results st) @ [normalizedEmail]\<rparr>\<rparr>
           else st\<lparr>membersToAdd := membersToAdd st @
                                       [\<lparr>user = accountId existingUser, role = RoleCollaborator,
                                         addedBy = requester, joinedAt = now e\<rparr>],
                   projectInvites := markInviteAccepted e normalizedEmail (projectInvites st),
                   results := (results st)\<lparr>addedMembers :=
                                 addedMembers (results st) @ [normalizedEmail]\<rparr>\<rparr>)
      | None \<Rightarrow>
          (if list_ex (\<lambda>i. email i = normalizedEmail \<and> inviteStatus i = Pending) (projectInvites st)
           then st\<lparr>results := (results st)\<lparr>alreadyInvited :=
                                 alreadyInvited (results st) @ [normalizedEmail]\<rparr>\<rparr>
           else st\<lparr>invitesToAdd := invitesToAdd st @
                                       [\<lparr>email = normalizedEmail, invitedBy = requester,
                                         inviteStatus = Pending, invitedAt = now e,
                                         acceptedAt = None, cancelledAt = None\<rparr>],
                   results := (results st)\<lparr>invitationsSent :=
                                 invitationsSent (results st) @ [normalizedEmail]\<rparr>\<rparr>))"

definition inviteRoute ::
  "env \<Rightarrow> db \<Rightarrow> account list \<Rightarrow> string \<Rightarrow> string \<Rightarrow> invite_body \<Rightarrow> invite_results response \<times> db" where
  "inviteRoute e d users requester projectId body =
     (if normalizedEmails body = []
      then (sendResponse 400 ''At least one valid email is required'' None, d)
      else
        (case findProject d projectId requester of
           None \<Rightarrow> (sendResponse 404 ''Project not found'' None, d)
         | Some p \<Rightarrow>
             if \<not> isProjectOwner p requester
             then (sendResponse 403 ''Only the project owner can send invitations'' None, d)
             else
               (let st = foldl (inviteStep e p requester (userByEmail users (normalizedEmails body)))
                           \<lparr>projectInvites = invites p, membersToAdd = [], invitesToAdd = [],
                            results = \<lparr>addedMembers = [], invitationsSent = [],
                                       alreadyMembers = [], alreadyInvited = [],
                                       invalidEmails = filter (\<lambda>raw. normalizeEmail raw = [])
                                                         (requestedEmails body)\<rparr>\<rparr>
                           (normalizedEmails body);
                    p' = p\<lparr>members := members p @ membersToAdd st,
                           invites := projectInvites st @ invitesToAdd st\<rparr>
                in (sendResponse 200
                      (if invitationsSent (results st) \<noteq> [] \<or> addedMembers (results st) \<noteq> []
                       then ''Invitations processed'' else ''No invitations were processed'')
                      (Some (results st)),
                    d(projectId \<mapsto> p')))))"

subsection \<open>What the properties speak about\<close>

text \<open>Orders that are dense and follow the position: the column at index \<open>i\<close> has order \<open>i + 1\<close>.\<close>

definition denseOrders :: "column list \<Rightarrow> bool" where
  "denseOrders cols = (\<forall>i < length cols. order (cols ! i) = Some (of_nat (i + 1)))"

text \<open>The column list the store holds for a project (none for a project that is not there).\<close>

definition persistedColumns :: "db \<Rightarrow> string \<Rightarrow> column list" where
  "persistedColumns d projectId = (case d projectId of None \<Rightarrow> [] | Some p \<Rightarrow> columns p)"

text \<open>The number of cards on a board.\<close>

definition cardCount :: "column list \<Rightarrow> nat" where
  "cardCount cols = sum_list (map (\<lambda>c. length (cardsOf c)) cols)"

text \<open>The number a column is sorted by: its order, or the largest safe integer when it has none.\<close>

definition orderKey :: "column \<Rightarrow> rat" where
  "orderKey c = (case order c of Some v \<Rightarrow> v | None \<Rightarrow> MAX_SAFE_INTEGER)"

text \<open>
  The first column declines the default card (a \<open>defaultCard\<close> property that is present
  and falsy) and has no cards.
\<close>

definition seedWithheld :: "column list \<Rightarrow> bool" where
  "seedWithheld cols =
     (case cols of [] \<Rightarrow> False | c # _ \<Rightarrow> defaultCard c = Some False \<and> cardsOf c = [])"

text \<open>
  The form in which the code compares column names (trimmed, lower case), and the two
  properties of the names of a board: none is empty; each is trimmed and no two are the same
  up to case.
\<close>

definition nameKey :: "column \<Rightarrow> string" where
  "nameKey c = toLowerCase (normalizeColumnName (name c))"

definition namesNonEmpty :: "column list \<Rightarrow> bool" where
  "namesNonEmpty cols = list_all (\<lambda>c. case name c of None \<Rightarrow> False | Some n \<Rightarrow> n \<noteq> []) cols"

definition namesTrimmedUnique :: "column list \<Rightarrow> bool" where
  "namesTrimmedUnique cols =
     (list_all (\<lambda>c. case name c of None \<Rightarrow> False | Some n \<Rightarrow> n \<noteq> [] \<and> trim n = n) cols \<and>
      distinct (map nameKey cols))"

text \<open>
  What steps of the invitation loop for other emails may change between two states: they
  append members of other accounts and invites for other emails, keep the length and the
  emails of the project's invites, leave the invites of this email as they are, and append
  to the result lists, never this email to the invitations sent.
\<close>

definition leavesAlone :: "string \<Rightarrow> string \<Rightarrow> invite_state \<Rightarrow> invite_state \<Rightarrow> bool" where
  "leavesAlone em uid st st' =
     (\<exists>ms is as ss.
        membersToAdd st' = membersToAdd st @ ms \<and> (\<forall>m \<in> set ms. user m \<noteq> uid) \<and>
        invitesToAdd st' = invitesToAdd st @ is \<and> (\<forall>i \<in> set is. email i \<noteq> em) \<and>
        length (projectInvites st') = length (projectInvites st) \<and>
        (\<forall>j < length (projectInvites st).
           email (projectInvites st' ! j) = email (projectInvites st ! j) \<and>
           (email (projectInvites st ! j) = em \<longrightarrow>
              projectInvites st' ! j = projectInvites st ! j)) \<and>
        addedMembers (results st') = addedMembers (results st) @ as \<and>
        invitationsSent (results st') = invitationsSent (results st) @ ss \<and> em \<notin> set ss)"

subsection \<open>A runtime and a store to run the routes on\<close>

text \<open>
  The concrete runtime of the examples. Its collation works as the default collation of
  the runtime does on letters, digits and spaces: strings are compared without regard to
  case first, and between strings equal up to case the lower-case letter comes first, so
  that \<open>'b'.localeCompare('B')\<close> is negative. Characters outside that alphabet share the
  last rank. No theorem about all runtimes depends on it.
\<close>

fun compareKeys :: "nat list \<Rightarrow> nat list \<Rightarrow> int" where
  "compareKeys [] [] = 0"
| "compareKeys [] (y # ys) = - 1"
| "compareKeys (x # xs) [] = 1"
| "compareKeys (x # xs) (y # ys) =
     (if x < y then - 1 else if y < x then 1 else compareKeys xs ys)"

definition collationRank :: "char \<Rightarrow> nat" where
  "collationRank c =
     length (takeWhile (\<lambda>x. x \<noteq> toLowerChar c) '' 0123456789abcdefghijklmnopqrstuvwxyz'')"

definition caseLevelCompare :: "string \<Rightarrow> string \<Rightarrow> int" where
  "caseLevelCompare a b =
     (let primary = compareKeys (map collationRank a) (map collationRank b)
      in if primary \<noteq> 0 then primary
         else compareKeys (map (\<lambda>c. if toLowerChar c = c then 0 else 1) a)
                          (map (\<lambda>c. if toLowerChar c = c then 0 else 1) b))"

definition sampleEnv :: env where
  "sampleEnv = \<lparr>now = 1700000000000, parseDate = (\<lambda>s. None), localeCompare = caseLevelCompare\<rparr>"

definition sampleCard :: card where
  "sampleCard = \<lparr>title = Some ''Write report'', description = Some ''Quarterly'',
                  status = Some ''To Do'', assignee = None,
                  dueDate = Some (DateObject (Some 1700000000000))\<rparr>"

definition sampleColumns :: "column list" where
  "sampleColumns =
     [\<lparr>name = Some ''Done'', order = Some 2, cards = Some [], defaultCard = None\<rparr>,
      \<lparr>name = Some ''To Do'', order = Some 1, cards = Some [sampleCard], defaultCard = None\<rparr>]"

definition sampleProject :: project where
  "sampleProject =
     \<lparr>owner = ''u1'',
      members = [\<lparr>user = ''u1'', role = RoleOwner, addedBy = ''u1'', joinedAt = 1690000000000\<rparr>],
      invites = [\<lparr>email = ''bob@example.com'', invitedBy = ''u1'', inviteStatus = Pending,
                  invitedAt = 1690000000001, acceptedAt = None, cancelledAt = None\<rparr>],
      columns = sampleColumns\<rparr>"

definition sampleDb :: db where
  "sampleDb = Map.empty(''p1'' \<mapsto> sampleProject)"

definition emptyBoardDb :: db where
  "emptyBoardDb = Map.empty(''p1'' \<mapsto> sampleProject\<lparr>columns := []\<rparr>)"

definition sampleBody :: column_body where
  "sampleBody = \<lparr>bodyName = Some '' Review '', bodyOrder = OrderNumber 2, bodyCards = CardsUndefined\<rparr>"

text \<open>A rename that brings its own cards, one of them with a status of its own.\<close>

definition renameWithCardsBody :: column_body where
  "renameWithCardsBody =
     \<lparr>bodyName = Some ''Doing'', bodyOrder = OrderUndefined,
      bodyCards = CardsArray [\<lparr>title = Some ''Fix login'', description = None,
                               status = Some ''Elsewhere'', assignee = None, dueDate = None\<rparr>]\<rparr>"

text \<open>Two columns of one order whose names differ in case only.\<close>

definition columnB :: column where
  "columnB = \<lparr>name = Some ''B'', order = Some 1, cards = Some [], defaultCard = None\<rparr>"

definition columnb :: column where
  "columnb = \<lparr>name = Some ''b'', order = Some 1, cards = Some [], defaultCard = None\<rparr>"

text \<open>A board whose one column declines the default card and has no cards.\<close>

definition optOutColumns :: "column list" where
  "optOutColumns = [\<lparr>name = Some ''Backlog'', order = None, cards = None, defaultCard = Some False\<rparr>]"

text \<open>A project body with two column names that are not trimmed and clash up to case.\<close>

definition clashingNamesBody :: project_body where
  "clashingNamesBody =
     \<lparr>projectName = Some ''Apollo'',
      projectColumns = Some [emptyObject\<lparr>name := Some '' Todo ''\<rparr>, emptyObject\<lparr>name := Some ''todo''\<rparr>]\<rparr>"

text \<open>A user directory and an invitation request.\<close>

definition sampleUsers :: "account list" where
  "sampleUsers = [\<lparr>accountId = ''u1'', accountEmail = ''ann@example.com''\<rparr>,
                  \<lparr>accountId = ''u2'', accountEmail = ''bob@example.com''\<rparr>]"

definition sampleInviteBody :: invite_body where
  "sampleInviteBody = \<lparr>bodyEmail = Some '' Bob@Example.com '', bodyEmails = Some [None, Some ''carol@example.com'']\<rparr>"

section \<open>Properties\<close>

subsection \<open>Indexed maps, reindexing and the shape of the routes\<close>

lemma length_mapFrom: "length (mapFrom k f xs) = length xs"
  by (induction xs arbitrary: k) simp_all

lemma nth_mapFrom: "i < length xs \<Longrightarrow> mapFrom k f xs ! i = f (k + i) (xs ! i)"
proof (induction xs arbitrary: k i)
  case Nil
  then show ?case by simp
next
  case (Cons x xs)
  then show ?case by (cases i) simp_all
qed

lemma length_mapIndexed: "length (mapIndexed f xs) = length xs"
  by (simp add: mapIndexed_def length_mapFrom)

lemma nth_mapIndexed: "i < length xs \<Longrightarrow> mapIndexed f xs ! i = f i (xs ! i)"
  by (simp add: mapIndexed_def nth_mapFrom)

lemma mapIndexed_Nil_iff: "mapIndexed f xs = [] \<longleftrightarrow> xs = []"
  by (cases xs) (simp_all add: mapIndexed_def)

lemma length_reindexColumns: "length (reindexColumns cols) = length cols"
  by (simp add: reindexColumns_def length_mapIndexed)

lemma nth_reindexColumns:
  "i < length cols \<Longrightarrow> reindexColumns cols ! i = (cols ! i)\<lparr>order := Some (of_nat (i + 1))\<rparr>"
  by (simp add: reindexColumns_def nth_mapIndexed)

lemma denseOrders_reindexColumns: "denseOrders (reindexColumns cols)"
  by (simp add: denseOrders_def length_reindexColumns nth_reindexColumns)

lemma denseOrders_sanitizeColumns: "denseOrders (sanitizeColumns e stored f g)"
  by (simp add: sanitizeColumns_def Let_def denseOrders_reindexColumns) (simp add: denseOrders_def)

lemma createColumnEdit_dense: "createColumnEdit e stored nm body = Inr cols \<Longrightarrow> denseOrders cols"
  by (auto simp: createColumnEdit_def Let_def denseOrders_reindexColumns
      split: if_splits list.splits option.splits)

lemma updateColumnEdit_dense: "updateColumnEdit e stored nm body = Inr cols \<Longrightarrow> denseOrders cols"
  by (auto simp: updateColumnEdit_def Let_def denseOrders_reindexColumns
      split: if_splits list.splits option.splits sum.splits)

lemma deleteColumnEdit_dense: "deleteColumnEdit e stored nm tgt = Inr cols \<Longrightarrow> denseOrders cols"
  by (auto simp: deleteColumnEdit_def Let_def denseOrders_reindexColumns
      split: if_splits list.splits option.splits sum.splits)

lemma success_sendResponse: "success (sendResponse code msg ex) = (200 \<le> code \<and> code < 400)"
  by (simp add: sendResponse_def)

text \<open>Every rejection of an edit carries a status of 400 or more.\<close>

lemma createColumnEdit_error: "createColumnEdit e stored nm body = Inl (code, msg) \<Longrightarrow> 400 \<le> code"
  by (auto simp: createColumnEdit_def Let_def split: if_splits list.splits option.splits)

lemma renameColumn_error: "renameColumn cols k nm = Inl (code, msg) \<Longrightarrow> 400 \<le> code"
  by (auto simp: renameColumn_def Let_def split: if_splits option.splits)

lemma updateColumnEdit_error: "updateColumnEdit e stored nm body = Inl (code, msg) \<Longrightarrow> 400 \<le> code"
  by (auto simp: updateColumnEdit_def Let_def
      split: if_splits list.splits option.splits sum.splits dest: renameColumn_error)

lemma deleteColumnEdit_error: "deleteColumnEdit e stored nm tgt = Inl (code, msg) \<Longrightarrow> 400 \<le> code"
  by (auto simp: deleteColumnEdit_def Let_def split: if_splits list.splits option.splits)

text \<open>A route that answers with success has found the project, and has written the edit.\<close>

lemma createColumnRoute_written:
  "success (fst (createColumnRoute e d u pid body)) \<Longrightarrow>
   \<exists>p cols. findProject d pid u = Some p \<and>
     createColumnEdit e (columns p) (normalizeColumnName (bodyName body)) body = Inr cols \<and>
     snd (createColumnRoute e d u pid body) = d(pid \<mapsto> p\<lparr>columns := cols\<rparr>)"
  by (auto simp: createColumnRoute_def Let_def success_sendResponse
      split: if_splits option.splits sum.splits prod.splits dest: createColumnEdit_error)

lemma updateColumnRoute_written:
  "success (fst (updateColumnRoute e d u pid cn body)) \<Longrightarrow>
   \<exists>p cols. findProject d pid u = Some p \<and>
     updateColumnEdit e (columns p) cn body = Inr cols \<and>
     snd (updateColumnRoute e d u pid cn body) = d(pid \<mapsto> p\<lparr>columns := cols\<rparr>)"
  by (auto simp: updateColumnRoute_def Let_def success_sendResponse
      split: if_splits option.splits sum.splits prod.splits dest: updateColumnEdit_error)

lemma deleteColumnRoute_written:
  "success (fst (deleteColumnRoute e d u pid cn tgt)) \<Longrightarrow>
   \<exists>p cols. findProject d pid u = Some p \<and>
     deleteColumnEdit e (columns p) cn tgt = Inr cols \<and>
     snd (deleteColumnRoute e d u pid cn tgt) = d(pid \<mapsto> p\<lparr>columns := cols\<rparr>)"
  by (auto simp: deleteColumnRoute_def Let_def success_sendResponse
      split: if_splits option.splits sum.splits prod.splits dest: deleteColumnEdit_error)

lemma sanitizeColumns_Nil: "sanitizeColumns e [] f False = []"
  by (simp add: sanitizeColumns_def normalizeExistingColumns_def)

lemma length_spliceInsert: "length (spliceInsert xs k x) = Suc (length xs)"
  by (simp add: spliceInsert_def Let_def spliceStart_def)

lemma normalizeColumns_single: "normalizeColumns e [c] f = [normalizeColumn e f 0 c]"
  by (simp add: normalizeColumns_def mapIndexed_def)

lemma createColumnEdit_empty_board:
  "\<exists>cols. createColumnEdit e [] nm body = Inr cols \<and> length cols = 1"
  by (simp add: createColumnEdit_def sanitizeColumns_Nil columnNameExists_def Let_def
      normalizeColumns_single length_reindexColumns length_spliceInsert)

subsection \<open>The default board\<close>

text \<open>
  Claim C1. Normalising an empty column list gives the four columns To Do, In Progress,
  In Review and Done, in that order, with the orders 1 to 4. To Do carries the one seeded
  card Task 1 and the other columns carry none, whatever the flag \<open>enforceDefaultCard\<close>
  is: the branch for the empty list does not read the flag, so with the flag false the
  seeded card is there all the same.
\<close>

theorem normalizeColumns_empty_default_board:
  "normalizeColumns e [] enforceDefaultCard =
     [\<lparr>name = Some ''To Do'', order = Some 1,
       cards = Some [\<lparr>title = Some ''Task 1'',
                      description = Some ''Scrum 1 default work item'',
                      status = Some ''To Do'',
                      assignee = None,
                      dueDate = Some (DateObject (Some (now e)))\<rparr>],
       defaultCard = None\<rparr>,
      \<lparr>name = Some ''In Progress'', order = Some 2, cards = Some [], defaultCard = None\<rparr>,
      \<lparr>name = Some ''In Review'', order = Some 3, cards = Some [], defaultCard = None\<rparr>,
      \<lparr>name = Some ''Done'', order = Some 4, cards = Some [], defaultCard = None\<rparr>]"
  by (simp add: normalizeColumns_def mapIndexed_def DEFAULT_BOARD_COLUMNS_def emptyObject_def
      createDefaultCards_def orElse_def)

subsection \<open>Dense orders\<close>

text \<open>
  Claim C2. The orders of a column list returned by \<open>sanitizeColumns\<close> are dense and
  follow the position (the column at index \<open>i\<close> has order \<open>i + 1\<close>, for a list of any
  length), and so are the orders of the list that a successful column create, column
  update (rename, new cards, move) or column delete leaves in the store.
\<close>

theorem column_orders_dense:
  "denseOrders (sanitizeColumns e stored f g) \<and>
   (success (fst (createColumnRoute e d u pid body)) \<longrightarrow>
      denseOrders (persistedColumns (snd (createColumnRoute e d u pid body)) pid)) \<and>
   (success (fst (updateColumnRoute e d u pid cn body)) \<longrightarrow>
      denseOrders (persistedColumns (snd (updateColumnRoute e d u pid cn body)) pid)) \<and>
   (success (fst (deleteColumnRoute e d u pid cn tgt)) \<longrightarrow>
      denseOrders (persistedColumns (snd (deleteColumnRoute e d u pid cn tgt)) pid))"
proof (intro conjI impI)
  show "denseOrders (sanitizeColumns e stored f g)"
    by (rule denseOrders_sanitizeColumns)
next
  assume "success (fst (createColumnRoute e d u pid body))"
  from createColumnRoute_written [OF this] show
    "denseOrders (persistedColumns (snd (createColumnRoute e d u pid body)) pid)"
    by (auto simp: persistedColumns_def dest: createColumnEdit_dense)
next
  assume "success (fst (updateColumnRoute e d u pid cn body))"
  from updateColumnRoute_written [OF this] show
    "denseOrders (persistedColumns (snd (updateColumnRoute e d u pid cn body)) pid)"
    by (auto simp: persistedColumns_def dest: updateColumnEdit_dense)
next
  assume "success (fst (deleteColumnRoute e d u pid cn tgt))"
  from deleteColumnRoute_written [OF this] show
    "denseOrders (persistedColumns (snd (deleteColumnRoute e d u pid cn tgt)) pid)"
    by (auto simp: persistedColumns_def dest: deleteColumnEdit_dense)
qed

theorem column_orders_dense_witness:
  "denseOrders (sanitizeColumns sampleEnv sampleColumns False False) \<and>
   success (fst (createColumnRoute sampleEnv sampleDb ''u1'' ''p1'' sampleBody)) \<and>
   denseOrders (persistedColumns
     (snd (createColumnRoute sampleEnv sampleDb ''u1'' ''p1'' sampleBody)) ''p1'') \<and>
   success (fst (updateColumnRoute sampleEnv sampleDb ''u1'' ''p1'' ''to do'' sampleBody)) \<and>
   denseOrders (persistedColumns
     (snd (updateColumnRoute sampleEnv sampleDb ''u1'' ''p1'' ''to do'' sampleBody)) ''p1'') \<and>
   success (fst (deleteColumnRoute sampleEnv sampleDb ''u1'' ''p1'' ''to do'' (Some ''DONE''))) \<and>
   denseOrders (persistedColumns
     (snd (deleteColumnRoute sampleEnv sampleDb ''u1'' ''p1'' ''to do'' (Some ''DONE''))) ''p1'')"
proof -
  have h1: "success (fst (createColumnRoute sampleEnv sampleDb ''u1'' ''p1'' sampleBody))"
    by code_simp
  have h2: "success (fst (updateColumnRoute sampleEnv sampleDb ''u1'' ''p1'' ''to do'' sampleBody))"
    by code_simp
  have h3: "success (fst (deleteColumnRoute sampleEnv sampleDb ''u1'' ''p1'' ''to do'' (Some ''DONE'')))"
    by code_simp
  show ?thesis
    using column_orders_dense [of sampleEnv sampleColumns False False sampleDb "''u1''" "''p1''"
        sampleBody "''to do''" "Some ''DONE''"] h1 h2 h3
    by simp
qed

subsection \<open>A board without columns\<close>

text \<open>
  Claim C10. Sanitising on read does not bring the default board back. With
  \<open>fallbackToDefault\<close> false, as the column routes leave it, \<open>normalizeExistingColumns\<close>
  and \<open>sanitizeColumns\<close> return the empty list for an empty list. So for a project whose
  stored column list is empty, reading the columns answers with no column, and creating a
  column (a name that is not blank, cards missing or an array) answers 201 and leaves a
  board of exactly one column in the store.
\<close>

theorem empty_board_stays_empty:
  "normalizeExistingColumns e [] f False = [] \<and>
   sanitizeColumns e [] f False = [] \<and>
   (findProject d pid u = Some p \<and> columns p = [] \<longrightarrow>
      extra (listColumnsRoute e d u pid) = Some [] \<and>
      (normalizeColumnName (bodyName body) \<noteq> [] \<and>
       bodyCards body \<noteq> CardsNull \<and> bodyCards body \<noteq> CardsOther \<longrightarrow>
         statusCode (fst (createColumnRoute e d u pid body)) = 201 \<and>
         length (persistedColumns (snd (createColumnRoute e d u pid body)) pid) = 1))"
proof (intro conjI impI)
  show "normalizeExistingColumns e [] f False = []"
    by (simp add: normalizeExistingColumns_def)
  show "sanitizeColumns e [] f False = []"
    by (rule sanitizeColumns_Nil)
next
  assume "findProject d pid u = Some p \<and> columns p = []"
  then show "extra (listColumnsRoute e d u pid) = Some []"
    by (simp add: listColumnsRoute_def normalizeExistingColumns_def sortColumnsByOrder_def
        sortWith_def sendResponse_def)
next
  assume p: "findProject d pid u = Some p \<and> columns p = []"
    and b: "normalizeColumnName (bodyName body) \<noteq> [] \<and>
       bodyCards body \<noteq> CardsNull \<and> bodyCards body \<noteq> CardsOther"
  obtain cols where cols: "createColumnEdit e [] (normalizeColumnName (bodyName body)) body = Inr cols"
    "length cols = 1"
    using createColumnEdit_empty_board by blast
  with p b show "statusCode (fst (createColumnRoute e d u pid body)) = 201"
    by (simp add: createColumnRoute_def Let_def sendResponse_def)
  from cols p b show "length (persistedColumns (snd (createColumnRoute e d u pid body)) pid) = 1"
    by (simp add: createColumnRoute_def Let_def persistedColumns_def)
qed

theorem empty_board_stays_empty_witness:
  "findProject emptyBoardDb ''p1'' ''u1'' = Some (sampleProject\<lparr>columns := []\<rparr>) \<and>
   normalizeColumnName (bodyName sampleBody) \<noteq> [] \<and>
   extra (listColumnsRoute sampleEnv emptyBoardDb ''u1'' ''p1'') = Some [] \<and>
   statusCode (fst (createColumnRoute sampleEnv emptyBoardDb ''u1'' ''p1'' sampleBody)) = 201 \<and>
   length (persistedColumns
     (snd (createColumnRoute sampleEnv emptyBoardDb ''u1'' ''p1'' sampleBody)) ''p1'') = 1"
proof -
  have h1: "findProject emptyBoardDb ''p1'' ''u1'' = Some (sampleProject\<lparr>columns := []\<rparr>)"
    by code_simp
  have h2: "normalizeColumnName (bodyName sampleBody) \<noteq> []"
    by code_simp
  have h3: "bodyCards sampleBody \<noteq> CardsNull \<and> bodyCards sampleBody \<noteq> CardsOther"
    by (simp add: sampleBody_def)
  show ?thesis
    using empty_board_stays_empty [of sampleEnv False emptyBoardDb "''p1''" "''u1''"
        "sampleProject\<lparr>columns := []\<rparr>" sampleBody] h1 h2 h3
    by simp
qed

subsection \<open>Deleting a column that holds cards\<close>

lemma findIndex_Some: "findIndex P xs = Some k \<Longrightarrow> k < length xs \<and> P (xs ! k)"
proof (induction xs arbitrary: k)
  case Nil
  then show ?case by simp
next
  case (Cons x xs)
  then show ?case by (cases k) (auto split: if_splits)
qed

lemma findColumnIndex_Some:
  "findColumnIndex cols s = Some k \<Longrightarrow>
   k < length cols \<and> toLowerCase (normalizeColumnName (Some s)) \<noteq> [] \<and>
   toLowerCase (normalizeColumnName (name (cols ! k))) = toLowerCase (normalizeColumnName (Some s))"
  by (auto simp: findColumnIndex_def Let_def split: if_splits dest: findIndex_Some)

lemma findColumnIndex_blank: "findColumnIndex cols [] = None"
  by (simp add: findColumnIndex_def normalizeColumnName_def orElse_def trim_def toLowerCase_def)

lemma length_spliceRemove: "k < length xs \<Longrightarrow> length (spliceRemove xs k) = length xs - 1"
  by (simp add: spliceRemove_def)

lemma sum_mapFrom:
  "(\<And>i x. g (f i x) = h x) \<Longrightarrow> sum_list (map g (mapFrom k f xs)) = sum_list (map h xs)"
  by (induction xs arbitrary: k) simp_all

lemma cardsOf_order_update [simp]: "cardsOf (c\<lparr>order := v\<rparr>) = cardsOf c"
  by (simp add: cardsOf_def)

lemma cardCount_reindexColumns: "cardCount (reindexColumns cols) = cardCount cols"
  by (simp add: cardCount_def reindexColumns_def mapIndexed_def sum_mapFrom)

lemma cardCount_insertSorted: "cardCount (insertSorted cmp x xs) = cardCount (x # xs)"
  by (induction xs) (simp_all add: cardCount_def)

lemma cardCount_sortWith: "cardCount (sortWith cmp xs) = cardCount xs"
proof (induction xs)
  case Nil
  then show ?case by (simp add: sortWith_def)
next
  case (Cons x xs)
  then show ?case by (simp add: sortWith_def cardCount_insertSorted) (simp add: cardCount_def)
qed

lemma length_cardsOf_normalizeColumn:
  "length (cardsOf (normalizeColumn e False i c)) = length (cardsOf c)"
  by (simp add: normalizeColumn_def Let_def cardsOf_def split: option.splits)

lemma cardCount_normalizeExistingColumns:
  "cardCount (normalizeExistingColumns e cols False False) = cardCount cols"
  by (simp add: normalizeExistingColumns_def normalizeColumns_def mapIndexed_def cardCount_def
      sum_mapFrom length_cardsOf_normalizeColumn)

lemma cardCount_sanitizeColumns: "cardCount (sanitizeColumns e cols False False) = cardCount cols"
proof (cases "normalizeExistingColumns e cols False False = []")
  case True
  then have "cardCount cols = cardCount []"
    using cardCount_normalizeExistingColumns [of e cols] by simp
  with True show ?thesis by (simp add: sanitizeColumns_def)
next
  case False
  then show ?thesis
    by (simp add: sanitizeColumns_def Let_def cardCount_reindexColumns sortColumnsByOrder_def
        cardCount_sortWith cardCount_normalizeExistingColumns)
qed

lemma cardCount_spliceRemove:
  "k < length xs \<Longrightarrow> cardCount (spliceRemove xs k) + length (cardsOf (xs ! k)) = cardCount xs"
proof -
  assume k: "k < length xs"
  then have "xs = take k xs @ xs ! k # drop (Suc k) xs" by (rule id_take_nth_drop)
  then have "cardCount xs = cardCount (take k xs @ xs ! k # drop (Suc k) xs)" by simp
  then show ?thesis by (simp add: cardCount_def spliceRemove_def)
qed

lemma cardCount_update:
  "t < length xs \<Longrightarrow>
   cardCount (xs[t := y]) + length (cardsOf (xs ! t)) = cardCount xs + length (cardsOf y)"
proof (induction xs arbitrary: t)
  case Nil
  then show ?case by simp
next
  case (Cons x xs)
  then show ?case by (cases t) (auto simp: cardCount_def)
qed

lemma deleteColumnEdit_migrates:
  assumes k: "findColumnIndex cols cn = Some k"
    and cols: "cols = sanitizeColumns e stored False False"
    and cards: "cardsOf (cols ! k) \<noteq> []"
    and t: "findColumnIndex (spliceRemove cols k) (normalizeColumnName tgt) = Some t"
  shows "deleteColumnEdit e stored cn tgt =
           Inr (reindexColumns ((spliceRemove cols k)[t :=
                  (spliceRemove cols k ! t)\<lparr>cards :=
                     Some (cardsOf (spliceRemove cols k ! t) @
                           map (\<lambda>c. c\<lparr>status := name (spliceRemove cols k ! t)\<rparr>) (cardsOf (cols ! k)))\<rparr>]))"
proof -
  have "normalizeColumnName tgt \<noteq> []"
    using t findColumnIndex_blank by (cases "normalizeColumnName tgt = []") auto
  with assms show ?thesis
    by (simp add: deleteColumnEdit_def Let_def)
qed

text \<open>
  Claim C3. When a column that holds at least one card is deleted and the target column
  of the request resolves to one of the remaining columns, the route answers 200, the
  destination keeps its name and its cards and receives the cards of the removed column
  after them, each with its status set to the name of the destination. So the destination
  holds as many cards as it held before plus those of the removed column, and the board
  holds as many cards as the stored board did: no card is lost.
\<close>

theorem delete_migrates_cards:
  assumes p: "findProject d pid u = Some p"
    and cols: "cols = sanitizeColumns e (columns p) False False"
    and k: "findColumnIndex cols cn = Some k"
    and cards: "cardsOf (cols ! k) \<noteq> []"
    and t: "findColumnIndex (spliceRemove cols k) (normalizeColumnName tgt) = Some t"
  shows "statusCode (fst (deleteColumnRoute e d u pid cn tgt)) = 200 \<and>
         (let r = persistedColumns (snd (deleteColumnRoute e d u pid cn tgt)) pid;
              remaining = spliceRemove cols k
          in length r = length remaining \<and> t < length r \<and>
             name (r ! t) = name (remaining ! t) \<and>
             cardsOf (r ! t) =
               cardsOf (remaining ! t) @
               map (\<lambda>c. c\<lparr>status := name (r ! t)\<rparr>) (cardsOf (cols ! k)) \<and>
             length (cardsOf (r ! t)) =
               length (cardsOf (remaining ! t)) + length (cardsOf (cols ! k)) \<and>
             cardCount r = cardCount (columns p))"
proof -
  define remaining where "remaining = spliceRemove cols k"
  define dest where "dest = (remaining ! t)\<lparr>cards :=
      Some (cardsOf (remaining ! t) @ map (\<lambda>c. c\<lparr>status := name (remaining ! t)\<rparr>) (cardsOf (cols ! k)))\<rparr>"
  define r where "r = reindexColumns (remaining[t := dest])"
  have edit: "deleteColumnEdit e (columns p) cn tgt = Inr r"
    using deleteColumnEdit_migrates [OF k cols cards t]
    by (simp add: r_def dest_def remaining_def)
  have klt: "k < length cols" using k findColumnIndex_Some by blast
  have tlt: "t < length remaining" using t findColumnIndex_Some unfolding remaining_def by blast
  have route: "deleteColumnRoute e d u pid cn tgt =
      (sendResponse 200 ''Column deleted'' (Some r), d(pid \<mapsto> p\<lparr>columns := r\<rparr>))"
    using p edit by (simp add: deleteColumnRoute_def)
  have pers: "persistedColumns (snd (deleteColumnRoute e d u pid cn tgt)) pid = r"
    by (simp add: route persistedColumns_def)
  have len: "length r = length remaining"
    by (simp add: r_def length_reindexColumns)
  have rt: "r ! t = dest\<lparr>order := Some (of_nat (t + 1))\<rparr>"
    using tlt by (simp add: r_def nth_reindexColumns)
  have nm: "name (r ! t) = name (remaining ! t)"
    by (simp add: rt dest_def)
  have cs: "cardsOf (r ! t) = cardsOf (remaining ! t) @
      map (\<lambda>c. c\<lparr>status := name (r ! t)\<rparr>) (cardsOf (cols ! k))"
    by (simp add: nm) (simp add: rt dest_def cardsOf_def)
  have "cardCount (remaining[t := dest]) + length (cardsOf (remaining ! t)) =
      cardCount remaining + length (cardsOf dest)"
    using tlt by (rule cardCount_update)
  moreover have "length (cardsOf dest) = length (cardsOf (remaining ! t)) + length (cardsOf (cols ! k))"
    by (simp add: dest_def cardsOf_def)
  moreover have "cardCount remaining + length (cardsOf (cols ! k)) = cardCount cols"
    unfolding remaining_def using klt by (rule cardCount_spliceRemove)
  ultimately have "cardCount (remaining[t := dest]) = cardCount cols"
    by simp
  then have total: "cardCount r = cardCount (columns p)"
    by (simp add: r_def cardCount_reindexColumns cols cardCount_sanitizeColumns)
  show ?thesis
    unfolding pers Let_def remaining_def [symmetric]
    using len tlt nm cs total by (simp add: route sendResponse_def)
qed


theorem delete_migrates_cards_witness:
  "findProject sampleDb ''p1'' ''u1'' = Some sampleProject \<and>
   findColumnIndex (sanitizeColumns sampleEnv (columns sampleProject) False False) ''to do'' = Some 0 \<and>
   cardsOf (sanitizeColumns sampleEnv (columns sampleProject) False False ! 0) \<noteq> [] \<and>
   findColumnIndex (spliceRemove (sanitizeColumns sampleEnv (columns sampleProject) False False) 0)
     (normalizeColumnName (Some ''DONE'')) = Some 0 \<and>
   statusCode (fst (deleteColumnRoute sampleEnv sampleDb ''u1'' ''p1'' ''to do'' (Some ''DONE''))) = 200 \<and>
   cardCount (persistedColumns
     (snd (deleteColumnRoute sampleEnv sampleDb ''u1'' ''p1'' ''to do'' (Some ''DONE''))) ''p1'') =
   cardCount (columns sampleProject)"
proof -
  have h1: "findProject sampleDb ''p1'' ''u1'' = Some sampleProject"
    by code_simp
  have h2: "findColumnIndex (sanitizeColumns sampleEnv (columns sampleProject) False False) ''to do'' = Some 0"
    by code_simp
  have h3: "cardsOf (sanitizeColumns sampleEnv (columns sampleProject) False False ! 0) \<noteq> []"
    by code_simp
  have h4: "findColumnIndex (spliceRemove (sanitizeColumns sampleEnv (columns sampleProject) False False) 0)
     (normalizeColumnName (Some ''DONE'')) = Some 0"
    by code_simp
  show ?thesis
    using delete_migrates_cards [OF h1 refl h2 h3 h4] h1 h2 h3 h4
    by (simp add: Let_def)
qed

text \<open>
  Claim C4, as the code has it. When a column that holds at least one card is deleted and
  the target column of the request is missing or blank, or names none of the remaining
  columns, the route answers 400 in both cases (the second with the message "Target
  column not found", not with 404) and writes nothing: the store is as it was.
\<close>

theorem delete_rejections:
  assumes "findProject d pid u = Some p"
    and "findColumnIndex (sanitizeColumns e (columns p) False False) cn = Some k"
    and "cardsOf (sanitizeColumns e (columns p) False False ! k) \<noteq> []"
    and "normalizeColumnName tgt = [] \<or>
         findColumnIndex (spliceRemove (sanitizeColumns e (columns p) False False) k)
           (normalizeColumnName tgt) = None"
  shows "statusCode (fst (deleteColumnRoute e d u pid cn tgt)) = 400 \<and>
         snd (deleteColumnRoute e d u pid cn tgt) = d"
  using assms
  by (auto simp: deleteColumnRoute_def deleteColumnEdit_def Let_def sendResponse_def)

theorem delete_rejections_witness:
  "statusCode (fst (deleteColumnRoute sampleEnv sampleDb ''u1'' ''p1'' ''To Do'' None)) = 400 \<and>
   snd (deleteColumnRoute sampleEnv sampleDb ''u1'' ''p1'' ''To Do'' None) = sampleDb \<and>
   statusCode (fst (deleteColumnRoute sampleEnv sampleDb ''u1'' ''p1'' ''To Do'' (Some ''Nowhere''))) = 400 \<and>
   snd (deleteColumnRoute sampleEnv sampleDb ''u1'' ''p1'' ''To Do'' (Some ''Nowhere'')) = sampleDb"
proof -
  have h1: "findProject sampleDb ''p1'' ''u1'' = Some sampleProject"
    by code_simp
  have h2: "findColumnIndex (sanitizeColumns sampleEnv (columns sampleProject) False False) ''To Do'' = Some 0"
    by code_simp
  have h3: "cardsOf (sanitizeColumns sampleEnv (columns sampleProject) False False ! 0) \<noteq> []"
    by code_simp
  have h4: "normalizeColumnName None = []"
    by code_simp
  have h5: "findColumnIndex (spliceRemove (sanitizeColumns sampleEnv (columns sampleProject) False False) 0)
           (normalizeColumnName (Some ''Nowhere'')) = None"
    by code_simp
  show ?thesis
    using delete_rejections [OF h1 h2 h3, of None]
      delete_rejections [OF h1 h2 h3, of "Some ''Nowhere''"] h4 h5
    by simp
qed

text \<open>
  The claim as the spec words it fails: deleting the column To Do of the sample board,
  which holds a card, with a target that names no remaining column is not answered with
  404.
\<close>

theorem delete_target_not_found_counterexample:
  "cardsOf (sanitizeColumns sampleEnv (columns sampleProject) False False ! 0) \<noteq> [] \<and>
   findColumnIndex (sanitizeColumns sampleEnv (columns sampleProject) False False) ''To Do'' = Some 0 \<and>
   findColumnIndex (spliceRemove (sanitizeColumns sampleEnv (columns sampleProject) False False) 0)
     (normalizeColumnName (Some ''Nowhere'')) = None \<and>
   statusCode (fst (deleteColumnRoute sampleEnv sampleDb ''u1'' ''p1'' ''To Do'' (Some ''Nowhere''))) \<noteq> 404"
  by code_simp

subsection \<open>Names, and renaming a column\<close>

lemma dropWhile_id: "xs = [] \<or> \<not> P (hd xs) \<Longrightarrow> dropWhile P xs = xs"
  by (cases xs) auto

lemma trim_trim: "trim (trim s) = trim s"
proof -
  define u where "u = dropWhile isSpace s"
  define v where "v = dropWhile isSpace (rev u)"
  have t: "trim s = rev v"
    by (simp add: trim_def u_def v_def)
  have v_hd: "v = [] \<or> \<not> isSpace (hd v)"
    using hd_dropWhile [of isSpace "rev u"] by (auto simp: v_def)
  have u_hd: "u = [] \<or> \<not> isSpace (hd u)"
    using hd_dropWhile [of isSpace s] by (auto simp: u_def)
  have "rev u = takeWhile isSpace (rev u) @ v"
    by (simp add: v_def)
  then have "rev (rev u) = rev (takeWhile isSpace (rev u) @ v)"
    by simp
  then have u: "u = rev v @ rev (takeWhile isSpace (rev u))"
    by simp
  have "rev v = [] \<or> \<not> isSpace (hd (rev v))"
  proof (cases "rev v = []")
    case True
    then show ?thesis by simp
  next
    case False
    then have "hd (rev v) = hd u" using u by (metis hd_append2)
    moreover from False u have "u \<noteq> []" by auto
    ultimately show ?thesis using u_hd by simp
  qed
  then have d1: "dropWhile isSpace (rev v) = rev v"
    by (rule dropWhile_id)
  have d2: "dropWhile isSpace v = v"
    using v_hd by (rule dropWhile_id)
  show ?thesis
    by (simp add: t) (simp add: trim_def d1 d2)
qed

lemma toLowerCase_Nil_iff [simp]: "toLowerCase s = [] \<longleftrightarrow> s = []"
  by (simp add: toLowerCase_def)

lemma normalizeColumnName_trimmed:
  "normalizeColumnName (Some (normalizeColumnName v)) = normalizeColumnName v"
  by (simp add: normalizeColumnName_def orElse_def trim_trim)

lemma columnNameExists_free:
  assumes "\<not> columnNameExists cols nm ig"
    and "normalizeColumnName (Some nm) \<noteq> []"
    and "j < length cols" and "Some j \<noteq> ig"
  shows "toLowerCase (normalizeColumnName (name (cols ! j))) \<noteq>
         toLowerCase (normalizeColumnName (Some nm))"
proof
  assume eq: "toLowerCase (normalizeColumnName (name (cols ! j))) =
         toLowerCase (normalizeColumnName (Some nm))"
  have "(j, cols ! j) \<in> set (zip [0..<length cols] cols)"
    using assms(3) by (auto simp: set_zip intro!: exI [of _ j])
  with eq assms(2,4) have "columnNameExists cols nm ig"
    by (auto simp: columnNameExists_def Let_def list_ex_iff)
  with assms(1) show False by simp
qed

text \<open>What a column is apart from its order: its name and its cards.\<close>

lemma content_reindexColumns:
  "map (\<lambda>c. (name c, cards c)) (reindexColumns cols) = map (\<lambda>c. (name c, cards c)) cols"
  by (rule nth_equalityI) (simp_all add: length_reindexColumns nth_reindexColumns)

lemma set_spliceInsert: "set (spliceInsert xs k x) = insert x (set xs)"
proof -
  have "set (take n xs) \<union> set (drop n xs) = set xs" for n
    by (metis append_take_drop_id set_append)
  then show ?thesis
    by (auto simp: spliceInsert_def Let_def)
qed

lemma set_spliceRemove: "k < length xs \<Longrightarrow> insert (xs ! k) (set (spliceRemove xs k)) = set xs"
proof -
  assume "k < length xs"
  then have "xs = take k xs @ xs ! k # drop (Suc k) xs" by (rule id_take_nth_drop)
  then have "set xs = set (take k xs @ xs ! k # drop (Suc k) xs)" by simp
  then show ?thesis by (auto simp: spliceRemove_def)
qed

lemma set_move: "k < length xs \<Longrightarrow> set (spliceInsert (spliceRemove xs k) t (xs ! k)) = set xs"
  by (simp add: set_spliceInsert set_spliceRemove)

lemma updateColumnEdit_content:
  assumes "updateColumnEdit e stored cn body = Inr r"
  shows "\<exists>k renamed.
           findColumnIndex (sanitizeColumns e stored False False) cn = Some k \<and>
           renameColumn (sanitizeColumns e stored False False) k (bodyName body) = Inr renamed \<and>
           (\<lambda>c. (name c, cards c)) ` set r =
           (\<lambda>c. (name c, cards c)) `
             set ((sanitizeColumns e stored False False)
                    [k := replaceCards e renamed (bodyCards body)])"
proof -
  define S where "S = sanitizeColumns e stored False False"
  from assms obtain k where k: "findColumnIndex S cn = Some k"
    by (auto simp: updateColumnEdit_def Let_def S_def split: option.splits)
  from assms k obtain renamed where rn: "renameColumn S k (bodyName body) = Inr renamed"
    by (auto simp: updateColumnEdit_def Let_def S_def split: sum.splits)
  define cols' where "cols' = S[k := replaceCards e renamed (bodyCards body)]"
  have klt: "k < length cols'"
    using k findColumnIndex_Some by (auto simp: cols'_def)
  from assms k rn have "r = reindexColumns cols' \<or>
      (\<exists>t. r = reindexColumns (spliceInsert (spliceRemove cols' k) t (cols' ! k)))"
    by (auto simp: updateColumnEdit_def Let_def S_def [symmetric] cols'_def [symmetric]
        split: if_splits option.splits)
  then obtain ys where ys: "r = reindexColumns ys" "set ys = set cols'"
    using klt set_move [of k cols'] by auto
  have "(\<lambda>c. (name c, cards c)) ` set r = set (map (\<lambda>c. (name c, cards c)) r)"
    by simp
  also have "\<dots> = set (map (\<lambda>c. (name c, cards c)) ys)"
    by (simp only: ys(1) content_reindexColumns)
  also have "\<dots> = (\<lambda>c. (name c, cards c)) ` set cols'"
    by (simp add: ys(2))
  finally have "(\<lambda>c. (name c, cards c)) ` set r = (\<lambda>c. (name c, cards c)) ` set cols'" .
  then show ?thesis
    using k rn unfolding S_def cols'_def by auto
qed


lemma renameColumn_Some:
  assumes "renameColumn cols k (Some s) = Inr renamed"
  shows "normalizeColumnName (Some s) \<noteq> [] \<and>
         \<not> columnNameExists cols (normalizeColumnName (Some s)) (Some k) \<and>
         renamed = (cols ! k)\<lparr>name := Some (normalizeColumnName (Some s)),
                     cards := Some (map (\<lambda>c. c\<lparr>status := Some (normalizeColumnName (Some s))\<rparr>)
                                      (cardsOf (cols ! k)))\<rparr>"
  using assms by (auto simp: renameColumn_def Let_def split: if_splits)

lemma replaceCards_named:
  assumes "name col = Some n" and "n \<noteq> []"
  shows "replaceCards e col cf =
           (case cardsProperty cf of
              None \<Rightarrow> col
            | Some cs \<Rightarrow> col\<lparr>cards := Some (map (prepareCard e n) cs)\<rparr>)"
  using assms
  by (cases cf) (simp_all add: replaceCards_def normalizeColumns_single normalizeColumn_def
      Let_def orElse_def)

text \<open>
  Claim C5, as the code has it. After a successful update that renames a column (the new
  name is not blank and collides with no other column), the column of that name is on the
  stored board and, when the request carries no cards array, every card of it has the new
  name as its status. When the request carries a cards array as well, the cards of the
  column are the normalised cards of the request: a card without a status of its own gets
  the new name, a card that brings a status keeps it.
\<close>

theorem rename_rewrites_card_status:
  assumes ok: "success (fst (updateColumnRoute e d u pid cn body))"
    and nm: "bodyName body = Some s"
  shows "let newName = normalizeColumnName (Some s);
             r = persistedColumns (snd (updateColumnRoute e d u pid cn body)) pid
         in newName \<noteq> [] \<and> (\<exists>c \<in> set r. name c = Some newName) \<and>
            (\<forall>c \<in> set r. name c = Some newName \<longrightarrow>
               (case cardsProperty (bodyCards body) of
                  None \<Rightarrow> \<forall>k \<in> set (cardsOf c). status k = Some newName
                | Some cs \<Rightarrow> cardsOf c = map (prepareCard e newName) cs))"
proof -
  define newName where "newName = normalizeColumnName (Some s)"
  from updateColumnRoute_written [OF ok] obtain p r where
    edit: "updateColumnEdit e (columns p) cn body = Inr r" and
    snd: "snd (updateColumnRoute e d u pid cn body) = d(pid \<mapsto> p\<lparr>columns := r\<rparr>)"
    by blast
  have pers: "persistedColumns (snd (updateColumnRoute e d u pid cn body)) pid = r"
    by (simp add: snd persistedColumns_def)
  define S where "S = sanitizeColumns e (columns p) False False"
  from updateColumnEdit_content [OF edit] nm obtain k renamed where
    k: "findColumnIndex S cn = Some k" and
    rn: "renameColumn S k (Some s) = Inr renamed" and
    img: "(\<lambda>c. (name c, cards c)) ` set r =
          (\<lambda>c. (name c, cards c)) ` set (S[k := replaceCards e renamed (bodyCards body)])"
    by (auto simp: S_def)
  define col2 where "col2 = replaceCards e renamed (bodyCards body)"
  have klt: "k < length S" using k findColumnIndex_Some by blast
  from renameColumn_Some [OF rn] have
    ne: "newName \<noteq> []" and
    free: "\<not> columnNameExists S newName (Some k)" and
    renamed: "renamed = (S ! k)\<lparr>name := Some newName,
                 cards := Some (map (\<lambda>c. c\<lparr>status := Some newName\<rparr>) (cardsOf (S ! k)))\<rparr>"
    by (simp_all add: newName_def)
  have rname: "name renamed = Some newName" by (simp add: renamed)
  have col2: "col2 = (case cardsProperty (bodyCards body) of
                        None \<Rightarrow> renamed
                      | Some cs \<Rightarrow> renamed\<lparr>cards := Some (map (prepareCard e newName) cs)\<rparr>)"
    unfolding col2_def using rname ne by (rule replaceCards_named)
  have col2_name: "name col2 = Some newName"
    by (simp add: col2 rname split: option.splits)
  have col2_cards: "case cardsProperty (bodyCards body) of
                  None \<Rightarrow> \<forall>k \<in> set (cardsOf col2). status k = Some newName
                | Some cs \<Rightarrow> cardsOf col2 = map (prepareCard e newName) cs"
    by (auto simp: col2 renamed cardsOf_def split: option.splits)
  have nn: "normalizeColumnName (Some newName) \<noteq> []"
    using ne by (simp add: newName_def normalizeColumnName_trimmed)
  have ex: "\<exists>c \<in> set r. name c = Some newName"
  proof -
    have "col2 \<in> set (S[k := col2])"
      using klt by (simp add: set_update_memI)
    then have "(name col2, cards col2) \<in> (\<lambda>c. (name c, cards c)) ` set r"
      unfolding img col2_def by (rule imageI)
    then show ?thesis using col2_name by auto
  qed
  have all: "case cardsProperty (bodyCards body) of
                  None \<Rightarrow> \<forall>k \<in> set (cardsOf c). status k = Some newName
                | Some cs \<Rightarrow> cardsOf c = map (prepareCard e newName) cs"
    if c: "c \<in> set r" and cn: "name c = Some newName" for c
  proof -
    from c have "(name c, cards c) \<in> (\<lambda>c. (name c, cards c)) ` set (S[k := col2])"
      unfolding img [symmetric] col2_def by (rule imageI)
    then obtain c' where c': "c' \<in> set (S[k := col2])" "name c' = name c" "cards c' = cards c"
      by auto
    from c'(1) obtain j where j: "j < length S" "c' = (S[k := col2]) ! j"
      by (auto simp: in_set_conv_nth)
    have "j = k"
    proof (rule ccontr)
      assume "j \<noteq> k"
      with j have "c' = S ! j" by simp
      with c'(2) cn have "toLowerCase (normalizeColumnName (name (S ! j))) =
          toLowerCase (normalizeColumnName (Some newName))" by simp
      moreover have "toLowerCase (normalizeColumnName (name (S ! j))) \<noteq>
          toLowerCase (normalizeColumnName (Some newName))"
        using free nn j(1) \<open>j \<noteq> k\<close> by (intro columnNameExists_free) auto
      ultimately show False by simp
    qed
    with j klt have "c' = col2" by simp
    with c'(3) have "cardsOf c = cardsOf col2" by (simp add: cardsOf_def)
    with col2_cards show ?thesis by (auto split: option.splits)
  qed
  show ?thesis
    unfolding Let_def pers newName_def [symmetric]
    using ne ex all by blast
qed

theorem rename_rewrites_card_status_witness:
  "success (fst (updateColumnRoute sampleEnv sampleDb ''u1'' ''p1'' ''to do'' sampleBody)) \<and>
   bodyName sampleBody = Some '' Review '' \<and>
   (let newName = normalizeColumnName (Some '' Review '');
        r = persistedColumns (snd (updateColumnRoute sampleEnv sampleDb ''u1'' ''p1'' ''to do'' sampleBody)) ''p1''
    in newName \<noteq> [] \<and> (\<exists>c \<in> set r. name c = Some newName) \<and>
       (\<forall>c \<in> set r. name c = Some newName \<longrightarrow>
          (case cardsProperty (bodyCards sampleBody) of
             None \<Rightarrow> \<forall>k \<in> set (cardsOf c). status k = Some newName
           | Some cs \<Rightarrow> cardsOf c = map (prepareCard sampleEnv newName) cs)))"
proof -
  have h1: "success (fst (updateColumnRoute sampleEnv sampleDb ''u1'' ''p1'' ''to do'' sampleBody))"
    by code_simp
  have h2: "bodyName sampleBody = Some '' Review ''"
    by (simp add: sampleBody_def)
  show ?thesis
    using rename_rewrites_card_status [OF h1 h2] h1 h2 by blast
qed

text \<open>
  The claim as the spec words it fails for a rename that brings cards: renaming To Do to
  Doing with a card whose status is Elsewhere leaves that status on the card.
\<close>

theorem rename_with_cards_counterexample:
  "success (fst (updateColumnRoute sampleEnv sampleDb ''u1'' ''p1'' ''To Do'' renameWithCardsBody)) \<and>
   name (persistedColumns
     (snd (updateColumnRoute sampleEnv sampleDb ''u1'' ''p1'' ''To Do'' renameWithCardsBody)) ''p1'' ! 0) =
     Some ''Doing'' \<and>
   map status (cardsOf (persistedColumns
     (snd (updateColumnRoute sampleEnv sampleDb ''u1'' ''p1'' ''To Do'' renameWithCardsBody)) ''p1'' ! 0)) =
     [Some ''Elsewhere'']"
  by code_simp

subsection \<open>Sorting the columns\<close>

lemma set_insertSorted: "set (insertSorted cmp x xs) = insert x (set xs)"
  by (induction xs) auto

lemma length_insertSorted: "length (insertSorted cmp x xs) = Suc (length xs)"
  by (induction xs) auto

lemma count_insertSorted: "count_list (insertSorted cmp x xs) y = count_list (x # xs) y"
  by (induction xs) auto

lemma set_sortWith: "set (sortWith cmp xs) = set xs"
  by (induction xs) (simp_all add: sortWith_def set_insertSorted)

lemma length_sortWith: "length (sortWith cmp xs) = length xs"
  by (induction xs) (simp_all add: sortWith_def length_insertSorted)

lemma count_sortWith: "count_list (sortWith cmp xs) y = count_list xs y"
  by (induction xs) (simp_all add: sortWith_def count_insertSorted)

lemma sorted_insertSorted:
  assumes total: "\<And>a b. cmp a b \<le> 0 \<or> cmp b a \<le> 0"
    and trans: "\<And>a b c. cmp a b \<le> 0 \<Longrightarrow> cmp b c \<le> 0 \<Longrightarrow> cmp a c \<le> 0"
    and sorted: "sorted_wrt (\<lambda>a b. cmp a b \<le> 0) xs"
  shows "sorted_wrt (\<lambda>a b. cmp a b \<le> 0) (insertSorted cmp x xs)"
  using sorted
proof (induction xs)
  case Nil
  then show ?case by simp
next
  case (Cons y ys)
  show ?case
  proof (cases "cmp x y \<le> 0")
    case True
    with Cons.prems trans show ?thesis by auto
  next
    case False
    with total have "cmp y x \<le> 0" by blast
    with False Cons show ?thesis by (auto simp: set_insertSorted)
  qed
qed

lemma sorted_sortWith:
  assumes total: "\<And>a b. cmp a b \<le> 0 \<or> cmp b a \<le> 0"
    and trans: "\<And>a b c. cmp a b \<le> 0 \<Longrightarrow> cmp b c \<le> 0 \<Longrightarrow> cmp a c \<le> 0"
  shows "sorted_wrt (\<lambda>a b. cmp a b \<le> 0) (sortWith cmp xs)"
proof (induction xs)
  case Nil
  then show ?case by (simp add: sortWith_def)
next
  case (Cons x xs)
  have "sortWith cmp (x # xs) = insertSorted cmp x (sortWith cmp xs)"
    by (simp add: sortWith_def)
  with Cons sorted_insertSorted [of cmp, OF total trans] show ?case by simp
qed

lemma compareColumns_le:
  "compareColumns e a b \<le> 0 \<longleftrightarrow>
     orderKey a < orderKey b \<or>
     (orderKey a = orderKey b \<and>
      localeCompare e (normalizeColumnName (name a)) (normalizeColumnName (name b)) \<le> 0)"
  by (auto simp: compareColumns_def orderKey_def Let_def)

text \<open>The sample collation is a total preorder.\<close>

lemma compareKeys_total: "compareKeys xs ys \<le> 0 \<or> compareKeys ys xs \<le> 0"
  by (induction xs ys rule: compareKeys.induct) auto

lemma compareKeys_zero: "compareKeys xs ys = 0 \<longleftrightarrow> xs = ys"
  by (induction xs ys rule: compareKeys.induct) auto

lemma compareKeys_refl: "compareKeys xs xs = 0"
  by (simp add: compareKeys_zero)

lemma compareKeys_trans:
  "compareKeys xs ys \<le> 0 \<Longrightarrow> compareKeys ys zs \<le> 0 \<Longrightarrow> compareKeys xs zs \<le> 0"
proof (induction xs arbitrary: ys zs)
  case Nil
  then show ?case by (cases zs) simp_all
next
  case (Cons x xs)
  from Cons.prems obtain y ys' where ys: "ys = y # ys'" by (cases ys) auto
  from Cons.prems ys obtain z zs' where zs: "zs = z # zs'" by (cases zs) (auto split: if_splits)
  from Cons.prems ys zs have xy: "x < y \<or> (x = y \<and> compareKeys xs ys' \<le> 0)"
    by (simp split: if_splits)
  from Cons.prems ys zs have yz: "y < z \<or> (y = z \<and> compareKeys ys' zs' \<le> 0)"
    by (simp split: if_splits)
  from xy yz have "x < z \<or> (x = z \<and> compareKeys xs zs' \<le> 0)"
    using Cons.IH by force
  then show ?case by (auto simp: zs)
qed

lemma compareKeys_antisym: "compareKeys xs ys \<le> 0 \<Longrightarrow> compareKeys ys xs \<le> 0 \<Longrightarrow> xs = ys"
  by (induction xs ys rule: compareKeys.induct) (auto split: if_splits)

lemma caseLevelCompare_le:
  "caseLevelCompare a b \<le> 0 \<longleftrightarrow>
     (compareKeys (map collationRank a) (map collationRank b) \<le> 0 \<and>
      (map collationRank a = map collationRank b \<longrightarrow>
         compareKeys (map (\<lambda>c. if toLowerChar c = c then 0 else 1) a)
                     (map (\<lambda>c. if toLowerChar c = c then 0 else 1) b) \<le> 0))"
proof (cases "map collationRank a = map collationRank b")
  case True
  then show ?thesis
    by (simp add: caseLevelCompare_def compareKeys_refl)
next
  case False
  then have "compareKeys (map collationRank a) (map collationRank b) \<noteq> 0"
    by (simp add: compareKeys_zero)
  with False show ?thesis
    by (simp add: caseLevelCompare_def)
qed

lemma caseLevelCompare_total: "caseLevelCompare a b \<le> 0 \<or> caseLevelCompare b a \<le> 0"
proof (cases "map collationRank a = map collationRank b")
  case True
  then show ?thesis
    using compareKeys_total [of "map (\<lambda>c. if toLowerChar c = c then 0 else 1) a"
        "map (\<lambda>c. if toLowerChar c = c then 0 else 1) b"]
    by (simp add: caseLevelCompare_le compareKeys_refl)
next
  case False
  then show ?thesis
    using compareKeys_total [of "map collationRank a" "map collationRank b"]
    by (auto simp: caseLevelCompare_le)
qed

lemma caseLevelCompare_trans:
  assumes "caseLevelCompare a b \<le> 0" and "caseLevelCompare b c \<le> 0"
  shows "caseLevelCompare a c \<le> 0"
proof -
  let ?p = "map collationRank" and ?q = "map (\<lambda>c. if toLowerChar c = c then 0 else (1::nat))"
  from assms have ab: "compareKeys (?p a) (?p b) \<le> 0" and bc: "compareKeys (?p b) (?p c) \<le> 0"
    by (simp_all add: caseLevelCompare_le)
  then have ac: "compareKeys (?p a) (?p c) \<le> 0" by (rule compareKeys_trans)
  have "compareKeys (?q a) (?q c) \<le> 0" if eq: "?p a = ?p c"
  proof -
    from eq ab bc have "?p a = ?p b" by (intro compareKeys_antisym) simp_all
    with eq assms have "compareKeys (?q a) (?q b) \<le> 0" "compareKeys (?q b) (?q c) \<le> 0"
      by (simp_all add: caseLevelCompare_le)
    then show ?thesis by (rule compareKeys_trans)
  qed
  with ac show ?thesis by (simp add: caseLevelCompare_le)
qed

text \<open>
  Claim C7, as the code has it. Under a collation that is total and transitive, the list
  that \<open>sortColumnsByOrder\<close> returns holds the columns it was given, by ascending
  order, and two columns of equal order stand as \<open>localeCompare\<close> places their trimmed
  names. The code hands the names to the collation as they are, without folding the case:
  names that differ in case only compare as the collation says, not as equal.
\<close>

theorem sortColumnsByOrder_sorted:
  assumes total: "\<forall>a b. localeCompare e a b \<le> 0 \<or> localeCompare e b a \<le> 0"
    and trans: "\<forall>a b c. localeCompare e a b \<le> 0 \<and> localeCompare e b c \<le> 0 \<longrightarrow>
                  localeCompare e a c \<le> 0"
  shows "sorted_wrt
           (\<lambda>a b. orderKey a < orderKey b \<or>
                  (orderKey a = orderKey b \<and>
                   localeCompare e (normalizeColumnName (name a)) (normalizeColumnName (name b)) \<le> 0))
           (sortColumnsByOrder e cols) \<and>
         (\<forall>c. count_list (sortColumnsByOrder e cols) c = count_list cols c)"
proof -
  have t: "compareColumns e a b \<le> 0 \<or> compareColumns e b a \<le> 0" for a b
    using total by (auto simp: compareColumns_le)
  have tr: "compareColumns e a c \<le> 0"
    if "compareColumns e a b \<le> 0" "compareColumns e b c \<le> 0" for a b c
    using that trans unfolding compareColumns_le
    by (metis less_trans)
  have "sorted_wrt (\<lambda>a b. compareColumns e a b \<le> 0) (sortWith (compareColumns e) cols)"
    using t tr by (rule sorted_sortWith)
  then show ?thesis
    by (simp add: sortColumnsByOrder_def compareColumns_le count_sortWith)
qed

theorem sortColumnsByOrder_sorted_witness:
  "sorted_wrt
     (\<lambda>a b. orderKey a < orderKey b \<or>
            (orderKey a = orderKey b \<and>
             localeCompare sampleEnv (normalizeColumnName (name a)) (normalizeColumnName (name b)) \<le> 0))
     (sortColumnsByOrder sampleEnv (columnB # columnb # sampleColumns)) \<and>
   sortColumnsByOrder sampleEnv (columnB # columnb # sampleColumns) =
     [columnb, columnB, sampleColumns ! 1, sampleColumns ! 0]"
proof -
  have h1: "\<forall>a b. localeCompare sampleEnv a b \<le> 0 \<or> localeCompare sampleEnv b a \<le> 0"
    by (simp add: sampleEnv_def caseLevelCompare_total)
  have h2: "\<forall>a b c. localeCompare sampleEnv a b \<le> 0 \<and> localeCompare sampleEnv b c \<le> 0 \<longrightarrow>
                  localeCompare sampleEnv a c \<le> 0"
  proof (intro allI impI)
    fix a b c
    assume "localeCompare sampleEnv a b \<le> 0 \<and> localeCompare sampleEnv b c \<le> 0"
    then have "caseLevelCompare a b \<le> 0" "caseLevelCompare b c \<le> 0"
      by (simp_all add: sampleEnv_def)
    then have "caseLevelCompare a c \<le> 0" by (rule caseLevelCompare_trans)
    then show "localeCompare sampleEnv a c \<le> 0" by (simp add: sampleEnv_def)
  qed
  have h3: "sortColumnsByOrder sampleEnv (columnB # columnb # sampleColumns) =
     [columnb, columnB, sampleColumns ! 1, sampleColumns ! 0]"
    by code_simp
  note sorted = sortColumnsByOrder_sorted [OF h1 h2, of "columnB # columnb # sampleColumns"]
  show ?thesis
    by (rule conjI [OF conjunct1 [OF sorted] h3])
qed

text \<open>
  The claim as the spec words it fails: B and b have one order and are the same name up to
  case, yet the comparator does not return 0 for them, and sorting B before b yields b
  before B, where a tie would have kept the order of the input.
\<close>

theorem sort_tie_case_sensitive_counterexample:
  "order columnB = order columnb \<and>
   toLowerCase (normalizeColumnName (name columnB)) = toLowerCase (normalizeColumnName (name columnb)) \<and>
   compareColumns sampleEnv columnB columnb \<noteq> 0 \<and>
   sortColumnsByOrder sampleEnv [columnB, columnb] = [columnb, columnB]"
  by code_simp

subsection \<open>Normalising twice\<close>

lemma orElse_idem: "orElse (Some (orElse v d)) d = orElse v d"
  by (simp add: orElse_def split: option.splits)

lemma orElse_nonempty: "d \<noteq> [] \<Longrightarrow> orElse v d \<noteq> []"
  by (simp add: orElse_def split: option.splits)

lemma orElse_Some: "s \<noteq> [] \<Longrightarrow> orElse (Some s) d = s"
  by (simp add: orElse_def)

lemma newDate_object: "\<exists>t. newDate e d = DateObject t"
  by (cases d) simp_all

lemma prepareCard_idem: "prepareCard e n (prepareCard e n c) = prepareCard e n c"
proof -
  obtain t where t: "dueDate (prepareCard e n c) = Some (DateObject t)"
    using newDate_object [of e] by (fastforce simp: prepareCard_def split: option.splits)
  have "dueDate (prepareCard e n (prepareCard e n c)) = Some (DateObject t)"
    using t by (simp add: prepareCard_def)
  with t show ?thesis
    by (simp add: prepareCard_def orElse_idem split: option.splits)
qed

lemma columnName_nonempty:
  "orElse (name c) (orElse (name (fallbackColumnAt i)) (''Column '' @ decimal (i + 1))) \<noteq> []"
  by (intro orElse_nonempty) simp

lemma fallback_defaultCard:
  "defaultCard (fallbackColumnAt i) = (if i = 0 then Some True else None)"
  by (simp add: fallbackColumnAt_def DEFAULT_BOARD_COLUMNS_def emptyObject_def nth_Cons'
      split: nat.splits)

lemma normalizeColumn_idem:
  assumes "\<not> (f \<and> i = 0 \<and> defaultCard c = Some False \<and> cardsOf c = [])"
  shows "normalizeColumn e f i (normalizeColumn e f i c) = normalizeColumn e f i c"
proof -
  define n where "n = orElse (name c) (orElse (name (fallbackColumnAt i)) (''Column '' @ decimal (i + 1)))"
  have ne: "n \<noteq> []" unfolding n_def by (rule columnName_nonempty)
  define prepared where "prepared = (case cards c of None \<Rightarrow> [] | Some cs \<Rightarrow> map (prepareCard e n) cs)"
  define seeded where "seeded = createDefaultCards e ((spread (fallbackColumnAt i) c)\<lparr>name := Some n\<rparr>)"
  define cs' where "cs' = (if prepared \<noteq> [] then prepared else if f then seeded else [])"
  have first: "normalizeColumn e f i c =
      \<lparr>name = Some n, order = (case order c of None \<Rightarrow> Some (of_nat (i + 1)) | Some v \<Rightarrow> Some v),
       cards = Some cs', defaultCard = None\<rparr>"
    unfolding normalizeColumn_def Let_def n_def prepared_def seeded_def cs'_def by (rule refl)
  have prep_fix: "map (prepareCard e n) prepared = prepared"
    by (simp add: prepared_def prepareCard_idem split: option.splits)
  have seed_fix: "map (prepareCard e n) seeded = seeded"
    using ne by (simp add: seeded_def createDefaultCards_def prepareCard_def orElse_def)
  have cs_fix: "map (prepareCard e n) cs' = cs'"
    by (simp add: cs'_def prep_fix seed_fix)
  have again: "createDefaultCards e
      ((spread (fallbackColumnAt i)
          \<lparr>name = Some n, order = (case order c of None \<Rightarrow> Some (of_nat (i + 1)) | Some v \<Rightarrow> Some v),
           cards = Some cs', defaultCard = None\<rparr>)\<lparr>name := Some n\<rparr>) = []"
    if "cs' = []" "f"
  proof -
    from that have p: "prepared = []" and s: "seeded = []"
      by (simp_all add: cs'_def split: if_splits)
    from p have "cardsOf c = []"
      by (simp add: prepared_def cardsOf_def split: option.splits)
    with assms that have "i \<noteq> 0 \<or> defaultCard c \<noteq> Some False" by auto
    moreover from s have "defaultCard (spread (fallbackColumnAt i) c) \<noteq> Some True"
      by (auto simp: seeded_def createDefaultCards_def split: if_splits)
    ultimately have "i \<noteq> 0"
      by (auto simp: spread_def fallback_defaultCard split: option.splits if_splits)
    then show ?thesis
      by (simp add: createDefaultCards_def spread_def fallback_defaultCard)
  qed
  show ?thesis
    unfolding first
    using ne cs_fix again
    by (simp add: normalizeColumn_def Let_def orElse_Some split: option.splits)
qed

lemma mapFrom_mapFrom:
  "mapFrom k f (mapFrom k g xs) = mapFrom k (\<lambda>i x. f i (g i x)) xs"
  by (induction xs arbitrary: k) simp_all

lemma mapFrom_cong:
  "(\<And>i. k \<le> i \<Longrightarrow> i < k + length xs \<Longrightarrow> f i (xs ! (i - k)) = g i (xs ! (i - k))) \<Longrightarrow>
   mapFrom k f xs = mapFrom k g xs"
proof (induction xs arbitrary: k)
  case Nil
  then show ?case by simp
next
  case (Cons x xs)
  have "f k x = g k x" using Cons.prems [of k] by simp
  moreover have "mapFrom (Suc k) f xs = mapFrom (Suc k) g xs"
  proof (rule Cons.IH)
    fix i assume "Suc k \<le> i" "i < Suc k + length xs"
    then show "f i (xs ! (i - Suc k)) = g i (xs ! (i - Suc k))"
      using Cons.prems [of i] by (simp add: Suc_diff_le)
  qed
  ultimately show ?case by simp
qed

lemma normalizeColumns_default_board_fixed:
  "normalizeColumns e (normalizeColumns e [] f) f = normalizeColumns e [] f"
  by (simp add: normalizeColumns_def mapIndexed_def normalizeColumn_def Let_def orElse_def
      prepareCard_def createDefaultCards_def spread_def fallbackColumnAt_def
      DEFAULT_BOARD_COLUMNS_def emptyObject_def)

text \<open>
  Claim C9, as the code has it. With the clock fixed, normalising the result of
  \<open>normalizeColumns\<close> again with the same flag returns it unchanged, for the empty list
  and for every list of columns, except when \<open>enforceDefaultCard\<close> is true and the first
  column declines the default card by a \<open>defaultCard\<close> property of its own and has no
  cards. (Then the first pass leaves the column without cards; its result no longer carries
  the property, and a second pass seeds the default card.)
\<close>

theorem normalizeColumns_idempotent:
  assumes "\<not> (f \<and> seedWithheld cols)"
  shows "normalizeColumns e (normalizeColumns e cols f) f = normalizeColumns e cols f"
proof (cases cols)
  case Nil
  then show ?thesis by (simp add: normalizeColumns_default_board_fixed)
next
  case (Cons c cs)
  have ne: "mapFrom 0 (normalizeColumn e f) cols \<noteq> []"
    by (simp add: Cons)
  have "mapFrom 0 (\<lambda>i x. normalizeColumn e f i (normalizeColumn e f i x)) cols =
        mapFrom 0 (normalizeColumn e f) cols"
  proof (rule mapFrom_cong)
    fix i assume "0 \<le> i" "i < 0 + length cols"
    have "\<not> (f \<and> i = 0 \<and> defaultCard (cols ! i) = Some False \<and> cardsOf (cols ! i) = [])"
      using assms by (auto simp: seedWithheld_def Cons)
    then show "normalizeColumn e f i (normalizeColumn e f i (cols ! (i - 0))) =
               normalizeColumn e f i (cols ! (i - 0))"
      by (simp add: normalizeColumn_idem)
  qed
  with ne show ?thesis
    by (simp add: normalizeColumns_def mapIndexed_def mapFrom_mapFrom Cons)
qed

theorem normalizeColumns_idempotent_witness:
  "\<not> (True \<and> seedWithheld sampleColumns) \<and>
   normalizeColumns sampleEnv (normalizeColumns sampleEnv sampleColumns True) True =
   normalizeColumns sampleEnv sampleColumns True"
proof -
  have h: "\<not> (True \<and> seedWithheld sampleColumns)"
    by code_simp
  show ?thesis
    using normalizeColumns_idempotent [OF h, of sampleEnv] h by blast
qed

text \<open>
  The claim as the spec words it fails: for the one column Backlog with \<open>defaultCard\<close>
  false and no cards, the first pass gives a column without cards and the second pass
  gives it the card Task 1.
\<close>

theorem normalizeColumns_not_idempotent_counterexample:
  "normalizeColumns sampleEnv optOutColumns True =
     [\<lparr>name = Some ''Backlog'', order = Some 1, cards = Some [], defaultCard = None\<rparr>] \<and>
   normalizeColumns sampleEnv (normalizeColumns sampleEnv optOutColumns True) True =
     [\<lparr>name = Some ''Backlog'', order = Some 1,
       cards = Some [\<lparr>title = Some ''Task 1'',
                      description = Some ''Scrum 1 default work item'',
                      status = Some ''Backlog'',
                      assignee = None,
                      dueDate = Some (DateObject (Some 1700000000000))\<rparr>],
       defaultCard = None\<rparr>] \<and>
   normalizeColumns sampleEnv (normalizeColumns sampleEnv optOutColumns True) True \<noteq>
   normalizeColumns sampleEnv optOutColumns True"
  by code_simp

subsection \<open>The names on a stored board\<close>

text \<open>The two predicates look at the names only.\<close>

lemma namesNonEmpty_cong: "map name xs = map name ys \<Longrightarrow> namesNonEmpty xs = namesNonEmpty ys"
proof -
  assume eq: "map name xs = map name ys"
  have "namesNonEmpty zs = list_all (\<lambda>v. case v of None \<Rightarrow> False | Some n \<Rightarrow> n \<noteq> []) (map name zs)" for zs
    by (simp add: namesNonEmpty_def list_all_iff)
  with eq show ?thesis by simp
qed

lemma namesTrimmedUnique_names:
  "namesTrimmedUnique zs =
     (list_all (\<lambda>v. case v of None \<Rightarrow> False | Some n \<Rightarrow> n \<noteq> [] \<and> trim n = n) (map name zs) \<and>
      distinct (map (\<lambda>v. toLowerCase (normalizeColumnName v)) (map name zs)))"
  by (simp add: namesTrimmedUnique_def list_all_iff nameKey_def [abs_def] comp_def)

lemma namesTrimmedUnique_cong:
  "map name xs = map name ys \<Longrightarrow> namesTrimmedUnique xs = namesTrimmedUnique ys"
  by (simp add: namesTrimmedUnique_names)

lemma namesTrimmedUnique_perm:
  assumes "set ys = set xs" and "distinct (map nameKey ys) = distinct (map nameKey xs)"
  shows "namesTrimmedUnique ys = namesTrimmedUnique xs"
  using assms by (simp add: namesTrimmedUnique_def list_all_iff)

lemma namesTrimmedUnique_nonEmpty: "namesTrimmedUnique xs \<Longrightarrow> namesNonEmpty xs"
  by (auto simp: namesTrimmedUnique_def namesNonEmpty_def list_all_iff split: option.splits)

lemma map_name_reindexColumns: "map name (reindexColumns cols) = map name cols"
  by (rule nth_equalityI) (simp_all add: length_reindexColumns nth_reindexColumns)

lemma distinct_insertSorted:
  "distinct (map g (insertSorted cmp x xs)) = distinct (map g (x # xs))"
  by (induction xs) (auto simp: set_insertSorted)

lemma distinct_sortWith: "distinct (map g (sortWith cmp xs)) = distinct (map g xs)"
proof (induction xs)
  case Nil
  then show ?case by (simp add: sortWith_def)
next
  case (Cons x xs)
  have "sortWith cmp (x # xs) = insertSorted cmp x (sortWith cmp xs)"
    by (simp add: sortWith_def)
  with Cons show ?case
    by (simp add: distinct_insertSorted set_sortWith)
qed

lemma set_mapFrom: "c \<in> set (mapFrom k f xs) \<Longrightarrow> \<exists>i x. x \<in> set xs \<and> c = f i x"
proof (induction xs arbitrary: k)
  case Nil
  then show ?case by simp
next
  case (Cons a xs)
  from Cons.prems have "c = f k a \<or> c \<in> set (mapFrom (Suc k) f xs)" by simp
  then show ?case
  proof
    assume "c = f k a"
    then show ?thesis by auto
  next
    assume "c \<in> set (mapFrom (Suc k) f xs)"
    from Cons.IH [OF this] show ?thesis by auto
  qed
qed

lemma map_mapFrom:
  "(\<And>i x. x \<in> set xs \<Longrightarrow> g (f i x) = h x) \<Longrightarrow> map g (mapFrom k f xs) = map h xs"
  by (induction xs arbitrary: k) simp_all

lemma name_normalizeColumn_nonempty:
  "\<exists>n. name (normalizeColumn e f i c) = Some n \<and> n \<noteq> []"
  using columnName_nonempty [of c i] by (simp add: normalizeColumn_def Let_def)

lemma name_normalizeColumn_kept:
  "name c = Some n \<Longrightarrow> n \<noteq> [] \<Longrightarrow> name (normalizeColumn e f i c) = Some n"
  by (simp add: normalizeColumn_def Let_def orElse_def)

lemma namesNonEmpty_normalizeColumns: "namesNonEmpty (normalizeColumns e cols f)"
proof (cases "cols = []")
  case True
  then show ?thesis
    by (simp add: namesNonEmpty_def normalizeColumns_def mapIndexed_def DEFAULT_BOARD_COLUMNS_def
        emptyObject_def)
next
  case False
  have "case name c of None \<Rightarrow> False | Some n \<Rightarrow> n \<noteq> []"
    if "c \<in> set (mapFrom 0 (normalizeColumn e f) cols)" for c
  proof -
    from set_mapFrom [OF that] obtain i x where "c = normalizeColumn e f i x" by blast
    with name_normalizeColumn_nonempty [of e f i x] show ?thesis by auto
  qed
  with False show ?thesis
    by (simp add: namesNonEmpty_def normalizeColumns_def mapIndexed_def list_all_iff)
qed

lemma namesNonEmpty_sanitizeColumns: "namesNonEmpty (sanitizeColumns e stored f g)"
proof -
  have "namesNonEmpty (normalizeExistingColumns e stored f g)"
    by (simp add: normalizeExistingColumns_def namesNonEmpty_normalizeColumns)
      (simp add: namesNonEmpty_def)
  then have "namesNonEmpty (sortColumnsByOrder e (normalizeExistingColumns e stored f g))"
    by (simp add: namesNonEmpty_def list_all_iff sortColumnsByOrder_def set_sortWith)
  then have "namesNonEmpty (reindexColumns (sortColumnsByOrder e (normalizeExistingColumns e stored f g)))"
    using namesNonEmpty_cong [OF map_name_reindexColumns] by simp
  then show ?thesis
    by (simp add: sanitizeColumns_def Let_def) (simp add: namesNonEmpty_def)
qed

lemma namesTrimmedUnique_sanitizeColumns:
  assumes "namesTrimmedUnique stored"
  shows "namesTrimmedUnique (sanitizeColumns e stored False False)"
proof (cases "stored = []")
  case True
  then show ?thesis by (simp add: sanitizeColumns_Nil namesTrimmedUnique_def)
next
  case False
  define N where "N = normalizeColumns e stored False"
  have "map name N = map name stored"
    unfolding N_def using False assms
    by (auto simp: normalizeColumns_def mapIndexed_def namesTrimmedUnique_def list_all_iff
        split: option.splits intro!: map_mapFrom name_normalizeColumn_kept)
  then have N: "namesTrimmedUnique N"
    using assms namesTrimmedUnique_cong by blast
  have "namesTrimmedUnique (sortColumnsByOrder e N)"
    using N namesTrimmedUnique_perm [of "sortColumnsByOrder e N" N]
    by (simp add: sortColumnsByOrder_def set_sortWith distinct_sortWith)
  then have "namesTrimmedUnique (reindexColumns (sortColumnsByOrder e N))"
    using namesTrimmedUnique_cong [OF map_name_reindexColumns] by simp
  moreover have "N \<noteq> []"
    using False by (simp add: N_def normalizeColumns_def mapIndexed_Nil_iff)
  ultimately show ?thesis
    using False by (simp add: sanitizeColumns_def normalizeExistingColumns_def N_def)
qed


lemma distinct_spliceInsert:
  "distinct (map g (spliceInsert xs k x)) = (g x \<notin> g ` set xs \<and> distinct (map g xs))"
proof -
  define n where "n = spliceStart (length xs) k"
  have id: "map g xs = map g (take n xs) @ map g (drop n xs)"
    by (metis append_take_drop_id map_append)
  have "distinct (map g (spliceInsert xs k x)) =
        distinct (map g (take n xs) @ g x # map g (drop n xs))"
    by (simp add: spliceInsert_def n_def Let_def)
  also have "\<dots> = (g x \<notin> set (map g (take n xs) @ map g (drop n xs)) \<and>
         distinct (map g (take n xs) @ map g (drop n xs)))"
    by auto
  also have "\<dots> = (g x \<notin> set (map g xs) \<and> distinct (map g xs))"
    by (simp only: id [symmetric])
  finally show ?thesis by simp
qed

lemma distinct_spliceRemove:
  assumes "k < length xs"
  shows "distinct (map g xs) =
         (g (xs ! k) \<notin> g ` set (spliceRemove xs k) \<and> distinct (map g (spliceRemove xs k)))"
proof -
  have "xs = take k xs @ xs ! k # drop (Suc k) xs"
    using assms by (rule id_take_nth_drop)
  then have "distinct (map g xs) =
      distinct (map g (take k xs) @ g (xs ! k) # map g (drop (Suc k) xs))"
    by (metis list.simps(9) map_append)
  then show ?thesis
    by (auto simp: spliceRemove_def)
qed

lemma distinct_move:
  "k < length xs \<Longrightarrow>
   distinct (map g (spliceInsert (spliceRemove xs k) t (xs ! k))) = distinct (map g xs)"
  by (simp add: distinct_spliceInsert distinct_spliceRemove [of k xs g])

lemma distinct_update:
  assumes "distinct xs" and "\<forall>j < length xs. j \<noteq> k \<longrightarrow> xs ! j \<noteq> y"
  shows "distinct (xs[k := y])"
proof -
  have "xs[k := y] ! i \<noteq> xs[k := y] ! j"
    if "i < length xs" "j < length xs" "i \<noteq> j" for i j
  proof (cases "i = k")
    case True
    with that assms(2) show ?thesis by (auto simp: nth_list_update)
  next
    case False
    show ?thesis
    proof (cases "j = k")
      case True
      with that assms(2) \<open>i \<noteq> k\<close> show ?thesis by (auto simp: nth_list_update)
    next
      case False
      with that assms(1) \<open>i \<noteq> k\<close> show ?thesis
        by (auto simp: nth_list_update distinct_conv_nth)
    qed
  qed
  then show ?thesis by (simp add: distinct_conv_nth)
qed

lemma name_replaceCards: "name (replaceCards e col cf) = name col"
  by (cases cf) (simp_all add: replaceCards_def normalizeColumns_single)

lemma normalizeColumnName_good:
  "nn = normalizeColumnName v \<Longrightarrow> nn \<noteq> [] \<Longrightarrow> nn \<noteq> [] \<and> trim nn = nn"
  by (simp add: normalizeColumnName_def trim_trim)

lemma createColumnEdit_shape:
  assumes "createColumnEdit e stored nn body = Inr r" and "nn \<noteq> []"
  shows "\<exists>idx prepared.
           r = reindexColumns (spliceInsert (sanitizeColumns e stored False False) idx prepared) \<and>
           name prepared = Some nn \<and>
           \<not> columnNameExists (sanitizeColumns e stored False False) nn None"
proof -
  define prepared where "prepared = normalizeColumn e False 0
      \<lparr>name = Some nn, order = orderProperty (bodyOrder body),
       cards = cardsProperty (bodyCards body), defaultCard = None\<rparr>"
  have "name prepared = Some nn"
    unfolding prepared_def using assms(2) by (intro name_normalizeColumn_kept) simp_all
  moreover from assms(1) have
    "\<not> columnNameExists (sanitizeColumns e stored False False) nn None \<and>
     (\<exists>idx. r = reindexColumns (spliceInsert (sanitizeColumns e stored False False) idx prepared))"
    by (auto simp: createColumnEdit_def Let_def normalizeColumns_single prepared_def
        split: if_splits option.splits)
  ultimately show ?thesis by blast
qed

lemma createColumnEdit_names:
  assumes edit: "createColumnEdit e stored nn body = Inr r"
    and nn: "nn = normalizeColumnName v" "nn \<noteq> []"
  shows "namesNonEmpty r \<and> (namesTrimmedUnique stored \<longrightarrow> namesTrimmedUnique r)"
proof -
  define S where "S = sanitizeColumns e stored False False"
  from createColumnEdit_shape [OF edit nn(2)] obtain idx prepared where
    r: "r = reindexColumns (spliceInsert S idx prepared)" and
    p: "name prepared = Some nn" and
    free: "\<not> columnNameExists S nn None"
    by (auto simp: S_def)
  have good: "trim nn = nn" using nn normalizeColumnName_good by blast
  have "namesNonEmpty (spliceInsert S idx prepared)"
    using namesNonEmpty_sanitizeColumns [of e stored False False] p nn(2)
    by (simp add: namesNonEmpty_def list_all_iff set_spliceInsert S_def)
  then have ne: "namesNonEmpty r"
    unfolding r using namesNonEmpty_cong [OF map_name_reindexColumns] by simp
  have "namesTrimmedUnique r" if "namesTrimmedUnique stored"
  proof -
    have S: "namesTrimmedUnique S"
      unfolding S_def using that by (rule namesTrimmedUnique_sanitizeColumns)
    have nn': "normalizeColumnName (Some nn) \<noteq> []"
      using nn by (simp add: normalizeColumnName_trimmed)
    have "nameKey prepared \<notin> nameKey ` set S"
    proof
      assume "nameKey prepared \<in> nameKey ` set S"
      then obtain j where j: "j < length S" "nameKey (S ! j) = nameKey prepared"
        by (auto simp: in_set_conv_nth)
      with columnNameExists_free [OF free nn' j(1)] p show False
        by (simp add: nameKey_def)
    qed
    with S p nn(2) good have "namesTrimmedUnique (spliceInsert S idx prepared)"
      by (simp add: namesTrimmedUnique_def list_all_iff set_spliceInsert distinct_spliceInsert)
    then show ?thesis
      unfolding r using namesTrimmedUnique_cong [OF map_name_reindexColumns] by simp
  qed
  with ne show ?thesis by simp
qed

lemma deleteColumnEdit_shape:
  assumes "deleteColumnEdit e stored cn tgt = Inr r"
  shows "\<exists>k ys. k < length (sanitizeColumns e stored False False) \<and>
           r = reindexColumns ys \<and>
           map name ys = map name (spliceRemove (sanitizeColumns e stored False False) k)"
proof -
  define S where "S = sanitizeColumns e stored False False"
  from assms obtain k where k: "findColumnIndex S cn = Some k"
    by (auto simp: deleteColumnEdit_def Let_def S_def split: option.splits)
  then have klt: "k < length S" using findColumnIndex_Some by blast
  define remaining where "remaining = spliceRemove S k"
  have upd: "map name (remaining[t := (remaining ! t)\<lparr>cards := x\<rparr>]) = map name remaining" for t x
  proof (rule nth_equalityI)
    show "length (map name (remaining[t := (remaining ! t)\<lparr>cards := x\<rparr>])) = length (map name remaining)"
      by simp
  next
    fix i assume "i < length (map name (remaining[t := (remaining ! t)\<lparr>cards := x\<rparr>]))"
    then show "map name (remaining[t := (remaining ! t)\<lparr>cards := x\<rparr>]) ! i = map name remaining ! i"
      by (cases "i = t") simp_all
  qed
  from assms k have "r = reindexColumns remaining \<or>
      (\<exists>t x. r = reindexColumns (remaining[t := (remaining ! t)\<lparr>cards := x\<rparr>]))"
    by (auto simp: deleteColumnEdit_def Let_def S_def [symmetric] remaining_def [symmetric]
        split: if_splits option.splits)
  with upd obtain ys where "r = reindexColumns ys" "map name ys = map name remaining"
    by metis
  with klt show ?thesis
    unfolding S_def [symmetric] remaining_def by blast
qed

lemma deleteColumnEdit_names:
  assumes edit: "deleteColumnEdit e stored cn tgt = Inr r"
  shows "namesNonEmpty r \<and> (namesTrimmedUnique stored \<longrightarrow> namesTrimmedUnique r)"
proof -
  define S where "S = sanitizeColumns e stored False False"
  from deleteColumnEdit_shape [OF edit] obtain k ys where
    klt: "k < length S" and r: "r = reindexColumns ys" and
    ys: "map name ys = map name (spliceRemove S k)"
    by (auto simp: S_def)
  have sub: "set (spliceRemove S k) \<subseteq> set S"
    using set_spliceRemove [OF klt] by auto
  have "map name r = map name (spliceRemove S k)"
    by (simp add: r map_name_reindexColumns ys)
  then have c1: "namesNonEmpty r = namesNonEmpty (spliceRemove S k)"
    and c2: "namesTrimmedUnique r = namesTrimmedUnique (spliceRemove S k)"
    by (rule namesNonEmpty_cong, rule namesTrimmedUnique_cong)
  have ne: "namesNonEmpty r"
    unfolding c1 using namesNonEmpty_sanitizeColumns [of e stored False False] sub
    by (auto simp: namesNonEmpty_def list_all_iff S_def)
  have "namesTrimmedUnique r" if "namesTrimmedUnique stored"
  proof -
    have S: "namesTrimmedUnique S"
      unfolding S_def using that by (rule namesTrimmedUnique_sanitizeColumns)
    then show ?thesis
      unfolding c2 using sub distinct_spliceRemove [OF klt, of nameKey]
      by (auto simp: namesTrimmedUnique_def list_all_iff)
  qed
  with ne show ?thesis by simp
qed


lemma updateColumnEdit_shape:
  assumes "updateColumnEdit e stored cn body = Inr r"
  shows "\<exists>k renamed ys.
           findColumnIndex (sanitizeColumns e stored False False) cn = Some k \<and>
           renameColumn (sanitizeColumns e stored False False) k (bodyName body) = Inr renamed \<and>
           r = reindexColumns ys \<and>
           set ys = set ((sanitizeColumns e stored False False)
                           [k := replaceCards e renamed (bodyCards body)]) \<and>
           distinct (map nameKey ys) =
           distinct (map nameKey ((sanitizeColumns e stored False False)
                                    [k := replaceCards e renamed (bodyCards body)]))"
proof -
  define S where "S = sanitizeColumns e stored False False"
  from assms obtain k where k: "findColumnIndex S cn = Some k"
    by (auto simp: updateColumnEdit_def Let_def S_def split: option.splits)
  from assms k obtain renamed where rn: "renameColumn S k (bodyName body) = Inr renamed"
    by (auto simp: updateColumnEdit_def Let_def S_def split: sum.splits)
  define cols' where "cols' = S[k := replaceCards e renamed (bodyCards body)]"
  have klt: "k < length cols'"
    using k findColumnIndex_Some by (auto simp: cols'_def)
  from assms k rn have "r = reindexColumns cols' \<or>
      (\<exists>t. r = reindexColumns (spliceInsert (spliceRemove cols' k) t (cols' ! k)))"
    by (auto simp: updateColumnEdit_def Let_def S_def [symmetric] cols'_def [symmetric]
        split: if_splits option.splits)
  then obtain ys where "r = reindexColumns ys" "set ys = set cols'"
    "distinct (map nameKey ys) = distinct (map nameKey cols')"
    using klt set_move [of k cols'] distinct_move [of k cols' nameKey] by auto
  with k rn show ?thesis
    unfolding S_def [symmetric] cols'_def by blast
qed

lemma updateColumnEdit_names:
  assumes edit: "updateColumnEdit e stored cn body = Inr r"
  shows "namesNonEmpty r \<and> (namesTrimmedUnique stored \<longrightarrow> namesTrimmedUnique r)"
proof -
  define S where "S = sanitizeColumns e stored False False"
  from updateColumnEdit_shape [OF edit] obtain k renamed ys where
    k: "findColumnIndex S cn = Some k" and
    rn: "renameColumn S k (bodyName body) = Inr renamed" and
    r: "r = reindexColumns ys" and
    ys: "set ys = set (S[k := replaceCards e renamed (bodyCards body)])"
      "distinct (map nameKey ys) =
       distinct (map nameKey (S[k := replaceCards e renamed (bodyCards body)]))"
    unfolding S_def by blast
  define col2 where "col2 = replaceCards e renamed (bodyCards body)"
  have klt: "k < length S" using k findColumnIndex_Some by blast
  have c1: "namesNonEmpty r = namesNonEmpty (S[k := col2])"
    unfolding r using namesNonEmpty_cong [OF map_name_reindexColumns, of ys] ys(1)
    by (simp add: namesNonEmpty_def list_all_iff col2_def)
  have c2: "namesTrimmedUnique r = namesTrimmedUnique (S[k := col2])"
    unfolding r using namesTrimmedUnique_cong [OF map_name_reindexColumns, of ys]
      namesTrimmedUnique_perm [OF ys [folded col2_def]] by simp
  have SnE: "namesNonEmpty S"
    unfolding S_def by (rule namesNonEmpty_sanitizeColumns)
  have name2: "name col2 = name renamed"
    by (simp add: col2_def name_replaceCards)
  show ?thesis
  proof (cases "bodyName body")
    case None
    with rn have "renamed = S ! k" by (simp add: renameColumn_def)
    with name2 klt have "map name (S[k := col2]) = map name S"
      by (simp add: map_update list_update_same_conv)
    then have "namesNonEmpty (S[k := col2]) = namesNonEmpty S"
      and "namesTrimmedUnique (S[k := col2]) = namesTrimmedUnique S"
      by (rule namesNonEmpty_cong, rule namesTrimmedUnique_cong)
    with c1 c2 SnE namesTrimmedUnique_sanitizeColumns [of stored e] show ?thesis
      by (simp add: S_def)
  next
    case (Some s)
    define newName where "newName = normalizeColumnName (Some s)"
    from renameColumn_Some [OF rn [unfolded Some]] have
      ne: "newName \<noteq> []" and
      free: "\<not> columnNameExists S newName (Some k)" and
      rname: "name renamed = Some newName"
      by (simp_all add: newName_def)
    have good: "trim newName = newName"
      using ne normalizeColumnName_good [of newName "Some s"] by (simp add: newName_def)
    have sub: "set (S[k := col2]) \<subseteq> insert col2 (set S)"
      by (rule set_update_subset_insert)
    have ne2: "namesNonEmpty (S[k := col2])"
      using sub SnE name2 rname ne by (auto simp: namesNonEmpty_def list_all_iff)
    have "namesTrimmedUnique (S[k := col2])" if "namesTrimmedUnique stored"
    proof -
      have S: "namesTrimmedUnique S"
        unfolding S_def using that by (rule namesTrimmedUnique_sanitizeColumns)
      have nn: "normalizeColumnName (Some newName) \<noteq> []"
        using ne by (simp add: newName_def normalizeColumnName_trimmed)
      have "\<forall>j < length (map nameKey S). j \<noteq> k \<longrightarrow> map nameKey S ! j \<noteq> nameKey col2"
        using columnNameExists_free [OF free nn] name2 rname by (simp add: nameKey_def)
      with S have "distinct ((map nameKey S)[k := nameKey col2])"
        by (intro distinct_update) (simp_all add: namesTrimmedUnique_def)
      then have "distinct (map nameKey (S[k := col2]))"
        by (simp add: map_update)
      with S sub name2 rname ne good show ?thesis
        by (auto simp: namesTrimmedUnique_def list_all_iff)
    qed
    with c1 c2 ne2 show ?thesis by simp
  qed
qed

text \<open>
  Claim C6, as the code has it. After a successful project create, project update with a
  columns payload, column create, column update or column delete, every stored column name
  is non-empty. The column routes keep the names trimmed and unique up to case when the
  stored names already are (a created or renamed column gets a trimmed name that clashes
  with no other). Project create and project update store the names of the client's columns
  as they are given, neither trimmed nor checked for clashes, and the column routes do not
  repair stored names.
\<close>

theorem column_names_after_operations:
  "(success (fst (createProjectRoute e d newId u pbody)) \<longrightarrow>
      namesNonEmpty (persistedColumns (snd (createProjectRoute e d newId u pbody)) newId)) \<and>
   (success (fst (updateProjectRoute e d u pid pbody)) \<and> projectColumns pbody \<noteq> None \<longrightarrow>
      namesNonEmpty (persistedColumns (snd (updateProjectRoute e d u pid pbody)) pid)) \<and>
   (success (fst (createColumnRoute e d u pid body)) \<longrightarrow>
      namesNonEmpty (persistedColumns (snd (createColumnRoute e d u pid body)) pid) \<and>
      (namesTrimmedUnique (persistedColumns d pid) \<longrightarrow>
         namesTrimmedUnique (persistedColumns (snd (createColumnRoute e d u pid body)) pid))) \<and>
   (success (fst (updateColumnRoute e d u pid cn body)) \<longrightarrow>
      namesNonEmpty (persistedColumns (snd (updateColumnRoute e d u pid cn body)) pid) \<and>
      (namesTrimmedUnique (persistedColumns d pid) \<longrightarrow>
         namesTrimmedUnique (persistedColumns (snd (updateColumnRoute e d u pid cn body)) pid))) \<and>
   (success (fst (deleteColumnRoute e d u pid cn tgt)) \<longrightarrow>
      namesNonEmpty (persistedColumns (snd (deleteColumnRoute e d u pid cn tgt)) pid) \<and>
      (namesTrimmedUnique (persistedColumns d pid) \<longrightarrow>
         namesTrimmedUnique (persistedColumns (snd (deleteColumnRoute e d u pid cn tgt)) pid)))"
proof (intro conjI impI)
  assume "success (fst (createProjectRoute e d newId u pbody))"
  then show "namesNonEmpty (persistedColumns (snd (createProjectRoute e d newId u pbody)) newId)"
    by (simp add: createProjectRoute_def Let_def success_sendResponse persistedColumns_def
        namesNonEmpty_normalizeColumns split: if_splits)
next
  assume "success (fst (updateProjectRoute e d u pid pbody)) \<and> projectColumns pbody \<noteq> None"
  then show "namesNonEmpty (persistedColumns (snd (updateProjectRoute e d u pid pbody)) pid)"
    by (auto simp: updateProjectRoute_def Let_def success_sendResponse persistedColumns_def
        namesNonEmpty_normalizeColumns split: option.splits)
next
  assume ok: "success (fst (createColumnRoute e d u pid body))"
  from createColumnRoute_written [OF ok] obtain p r where
    p: "findProject d pid u = Some p" and
    edit: "createColumnEdit e (columns p) (normalizeColumnName (bodyName body)) body = Inr r" and
    w: "snd (createColumnRoute e d u pid body) = d(pid \<mapsto> p\<lparr>columns := r\<rparr>)"
    by blast
  from ok have "normalizeColumnName (bodyName body) \<noteq> []"
    by (auto simp: createColumnRoute_def Let_def success_sendResponse split: if_splits)
  from createColumnEdit_names [OF edit refl this] p w
  show "namesNonEmpty (persistedColumns (snd (createColumnRoute e d u pid body)) pid)"
    and "namesTrimmedUnique (persistedColumns d pid) \<Longrightarrow>
         namesTrimmedUnique (persistedColumns (snd (createColumnRoute e d u pid body)) pid)"
    by (auto simp: persistedColumns_def findProject_def split: option.splits if_splits)
next
  assume ok: "success (fst (updateColumnRoute e d u pid cn body))"
  from updateColumnRoute_written [OF ok] obtain p r where
    p: "findProject d pid u = Some p" and
    edit: "updateColumnEdit e (columns p) cn body = Inr r" and
    w: "snd (updateColumnRoute e d u pid cn body) = d(pid \<mapsto> p\<lparr>columns := r\<rparr>)"
    by blast
  from updateColumnEdit_names [OF edit] p w
  show "namesNonEmpty (persistedColumns (snd (updateColumnRoute e d u pid cn body)) pid)"
    and "namesTrimmedUnique (persistedColumns d pid) \<Longrightarrow>
         namesTrimmedUnique (persistedColumns (snd (updateColumnRoute e d u pid cn body)) pid)"
    by (auto simp: persistedColumns_def findProject_def split: option.splits if_splits)
next
  assume ok: "success (fst (deleteColumnRoute e d u pid cn tgt))"
  from deleteColumnRoute_written [OF ok] obtain p r where
    p: "findProject d pid u = Some p" and
    edit: "deleteColumnEdit e (columns p) cn tgt = Inr r" and
    w: "snd (deleteColumnRoute e d u pid cn tgt) = d(pid \<mapsto> p\<lparr>columns := r\<rparr>)"
    by blast
  from deleteColumnEdit_names [OF edit] p w
  show "namesNonEmpty (persistedColumns (snd (deleteColumnRoute e d u pid cn tgt)) pid)"
    and "namesTrimmedUnique (persistedColumns d pid) \<Longrightarrow>
         namesTrimmedUnique (persistedColumns (snd (deleteColumnRoute e d u pid cn tgt)) pid)"
    by (auto simp: persistedColumns_def findProject_def split: option.splits if_splits)
qed


theorem column_names_after_operations_witness:
  "success (fst (createProjectRoute sampleEnv sampleDb ''p2'' ''u1'' clashingNamesBody)) \<and>
   namesNonEmpty (persistedColumns (snd (createProjectRoute sampleEnv sampleDb ''p2'' ''u1'' clashingNamesBody)) ''p2'') \<and>
   success (fst (updateProjectRoute sampleEnv sampleDb ''u1'' ''p1'' clashingNamesBody)) \<and>
   namesNonEmpty (persistedColumns (snd (updateProjectRoute sampleEnv sampleDb ''u1'' ''p1'' clashingNamesBody)) ''p1'') \<and>
   namesTrimmedUnique (persistedColumns sampleDb ''p1'') \<and>
   success (fst (createColumnRoute sampleEnv sampleDb ''u1'' ''p1'' sampleBody)) \<and>
   namesTrimmedUnique (persistedColumns (snd (createColumnRoute sampleEnv sampleDb ''u1'' ''p1'' sampleBody)) ''p1'') \<and>
   success (fst (updateColumnRoute sampleEnv sampleDb ''u1'' ''p1'' ''to do'' sampleBody)) \<and>
   namesTrimmedUnique (persistedColumns (snd (updateColumnRoute sampleEnv sampleDb ''u1'' ''p1'' ''to do'' sampleBody)) ''p1'') \<and>
   success (fst (deleteColumnRoute sampleEnv sampleDb ''u1'' ''p1'' ''to do'' (Some ''DONE''))) \<and>
   namesTrimmedUnique (persistedColumns (snd (deleteColumnRoute sampleEnv sampleDb ''u1'' ''p1'' ''to do'' (Some ''DONE''))) ''p1'')"
proof -
  have h1: "success (fst (createProjectRoute sampleEnv sampleDb ''p2'' ''u1'' clashingNamesBody))"
    by code_simp
  have h2: "success (fst (updateProjectRoute sampleEnv sampleDb ''u1'' ''p1'' clashingNamesBody)) \<and>
      projectColumns clashingNamesBody \<noteq> None"
    by code_simp
  have h3: "namesTrimmedUnique (persistedColumns sampleDb ''p1'')"
    by code_simp
  have h4: "success (fst (createColumnRoute sampleEnv sampleDb ''u1'' ''p1'' sampleBody))"
    by code_simp
  have h5: "success (fst (updateColumnRoute sampleEnv sampleDb ''u1'' ''p1'' ''to do'' sampleBody))"
    by code_simp
  have h6: "success (fst (deleteColumnRoute sampleEnv sampleDb ''u1'' ''p1'' ''to do'' (Some ''DONE'')))"
    by code_simp
  show ?thesis
    using column_names_after_operations [of sampleEnv sampleDb "''p2''" "''u1''" clashingNamesBody
        "''p1''" sampleBody "''to do''" "Some ''DONE''"] h1 h2 h3 h4 h5 h6
    by blast
qed

text \<open>
  The claim as the spec words it fails: a project created with the columns " Todo " and
  "todo" is stored with exactly these names, the first not trimmed and the two equal up to
  case.
\<close>

theorem project_create_names_counterexample:
  "success (fst (createProjectRoute sampleEnv sampleDb ''p2'' ''u1'' clashingNamesBody)) \<and>
   map name (persistedColumns (snd (createProjectRoute sampleEnv sampleDb ''p2'' ''u1'' clashingNamesBody)) ''p2'') =
     [Some '' Todo '', Some ''todo''] \<and>
   trim '' Todo '' \<noteq> '' Todo '' \<and>
   toLowerCase (trim '' Todo '') = toLowerCase (trim ''todo'') \<and>
   \<not> namesTrimmedUnique
       (persistedColumns (snd (createProjectRoute sampleEnv sampleDb ''p2'' ''u1'' clashingNamesBody)) ''p2'')"
  by code_simp

subsection \<open>Inviting the holder of an account\<close>

lemma leavesAlone_refl: "leavesAlone em uid st st"
  unfolding leavesAlone_def
  by (rule exI [of _ "[]"], rule exI [of _ "[]"], rule exI [of _ "[]"], rule exI [of _ "[]"])
    simp

lemma leavesAlone_trans:
  assumes "leavesAlone em uid st st'" and "leavesAlone em uid st' st''"
  shows "leavesAlone em uid st st''"
proof -
  from assms(1) obtain ms "is" as ss where 1:
    "membersToAdd st' = membersToAdd st @ ms" "\<forall>m \<in> set ms. user m \<noteq> uid"
    "invitesToAdd st' = invitesToAdd st @ is" "\<forall>i \<in> set is. email i \<noteq> em"
    "length (projectInvites st') = length (projectInvites st)"
    "\<forall>j < length (projectInvites st).
           email (projectInvites st' ! j) = email (projectInvites st ! j) \<and>
           (email (projectInvites st ! j) = em \<longrightarrow>
              projectInvites st' ! j = projectInvites st ! j)"
    "addedMembers (results st') = addedMembers (results st) @ as"
    "invitationsSent (results st') = invitationsSent (results st) @ ss" "em \<notin> set ss"
    unfolding leavesAlone_def by blast
  from assms(2) obtain ms' is' as' ss' where 2:
    "membersToAdd st'' = membersToAdd st' @ ms'" "\<forall>m \<in> set ms'. user m \<noteq> uid"
    "invitesToAdd st'' = invitesToAdd st' @ is'" "\<forall>i \<in> set is'. email i \<noteq> em"
    "length (projectInvites st'') = length (projectInvites st')"
    "\<forall>j < length (projectInvites st').
           email (projectInvites st'' ! j) = email (projectInvites st' ! j) \<and>
           (email (projectInvites st' ! j) = em \<longrightarrow>
              projectInvites st'' ! j = projectInvites st' ! j)"
    "addedMembers (results st'') = addedMembers (results st') @ as'"
    "invitationsSent (results st'') = invitationsSent (results st') @ ss'" "em \<notin> set ss'"
    unfolding leavesAlone_def by blast
  show ?thesis
    unfolding leavesAlone_def
  proof (rule exI [of _ "ms @ ms'"], rule exI [of _ "is @ is'"], rule exI [of _ "as @ as'"],
      rule exI [of _ "ss @ ss'"], intro conjI)
    show "\<forall>j < length (projectInvites st).
           email (projectInvites st'' ! j) = email (projectInvites st ! j) \<and>
           (email (projectInvites st ! j) = em \<longrightarrow>
              projectInvites st'' ! j = projectInvites st ! j)"
      using 1(5,6) 2(6) by simp
  qed (use 1 2 in auto)
qed

lemma markInviteAccepted_other:
  "x \<noteq> em \<Longrightarrow> j < length invs \<Longrightarrow>
   email (markInviteAccepted e x invs ! j) = email (invs ! j) \<and>
   (email (invs ! j) = em \<longrightarrow> markInviteAccepted e x invs ! j = invs ! j)"
  by (simp add: markInviteAccepted_def)

lemma inviteStep_other:
  assumes "x \<noteq> em"
    and "\<And>a. directory x = Some a \<Longrightarrow> accountId a \<noteq> uid"
  shows "leavesAlone em uid st (inviteStep e p requester directory st x)"
proof (cases "directory x")
  case None
  show ?thesis
  proof (cases "list_ex (\<lambda>i. email i = x \<and> inviteStatus i = Pending) (projectInvites st)")
    case True
    show ?thesis
      unfolding leavesAlone_def
      by (rule exI [of _ "[]"], rule exI [of _ "[]"], rule exI [of _ "[]"], rule exI [of _ "[]"])
        (use None True in \<open>simp add: inviteStep_def\<close>)
  next
    case False
    show ?thesis
      unfolding leavesAlone_def
      by (rule exI [of _ "[]"],
          rule exI [of _ "[\<lparr>email = x, invitedBy = requester, inviteStatus = Pending,
                       invitedAt = now e, acceptedAt = None, cancelledAt = None\<rparr>]"],
          rule exI [of _ "[]"], rule exI [of _ "[x]"])
        (use None False assms(1) in \<open>simp add: inviteStep_def\<close>)
  qed
next
  case (Some a)
  show ?thesis
  proof (cases "list_ex (\<lambda>m. user m = accountId a) (membersToAdd st) \<or>
              isProjectMember p (accountId a)")
    case True
    show ?thesis
      unfolding leavesAlone_def
      by (rule exI [of _ "[]"], rule exI [of _ "[]"], rule exI [of _ "[]"], rule exI [of _ "[]"])
        (use Some True in \<open>auto simp: inviteStep_def\<close>)
  next
    case False
    show ?thesis
      unfolding leavesAlone_def
      by (rule exI [of _ "[\<lparr>user = accountId a, role = RoleCollaborator,
                               addedBy = requester, joinedAt = now e\<rparr>]"],
          rule exI [of _ "[]"], rule exI [of _ "[x]"], rule exI [of _ "[]"])
        (use Some False assms in
          \<open>simp add: inviteStep_def markInviteAccepted_other, simp add: markInviteAccepted_def\<close>)
  qed
qed

lemma foldl_inviteStep_other:
  assumes "em \<notin> set xs"
    and "\<And>x a. x \<noteq> em \<Longrightarrow> directory x = Some a \<Longrightarrow> accountId a \<noteq> uid"
  shows "leavesAlone em uid st (foldl (inviteStep e p requester directory) st xs)"
  using assms(1)
proof (induction xs arbitrary: st)
  case Nil
  then show ?case by (simp add: leavesAlone_refl)
next
  case (Cons x xs)
  then have "x \<noteq> em" "em \<notin> set xs" by auto
  from inviteStep_other [OF this(1) assms(2) [OF this(1)], of directory st e p requester]
  have "leavesAlone em uid st (inviteStep e p requester directory st x)" by simp
  moreover have "leavesAlone em uid (inviteStep e p requester directory st x)
      (foldl (inviteStep e p requester directory) (inviteStep e p requester directory st x) xs)"
    using \<open>em \<notin> set xs\<close> by (rule Cons.IH)
  ultimately show ?case
    by (simp add: leavesAlone_trans)
qed


lemma userByEmail_Some:
  "userByEmail users wanted x = Some a \<Longrightarrow>
   a \<in> set users \<and> normalizeEmail (Some (accountEmail a)) = x"
  by (auto simp: userByEmail_def dest!: map_of_SomeD)

lemma userByEmail_inj:
  assumes "distinct (map accountId users)"
    and "userByEmail users wanted x = Some a" and "userByEmail users wanted y = Some b"
    and "x \<noteq> y"
  shows "accountId a \<noteq> accountId b"
proof
  assume eq: "accountId a = accountId b"
  from assms(2,3) have a: "a \<in> set users" "normalizeEmail (Some (accountEmail a)) = x"
    and b: "b \<in> set users" "normalizeEmail (Some (accountEmail b)) = y"
    by (auto dest: userByEmail_Some)
  from assms(1) have "inj_on accountId (set users)"
    by (simp add: distinct_map)
  with eq a(1) b(1) have "a = b" by (auto dest: inj_onD)
  with a(2) b(2) assms(4) show False by simp
qed

lemma distinct_setOrder: "distinct (setOrder xs)"
  by (simp add: setOrder_def)

text \<open>
  Claim C8. When the owner of a project sends an invitation whose normalised emails contain
  one that resolves to an account which is not a member of the project (accounts having
  distinct identifiers), the route answers 200 and saves the project with that account
  among the members, as a collaborator added by the requester; every invite of the project
  for that email that was pending is accepted, in its place; no invite for that email is
  pending afterwards, so none was created; and the email is reported under the added
  members and not under the invitations sent.
\<close>

theorem invite_existing_account:
  assumes p: "findProject d pid requester = Some p"
    and own: "isProjectOwner p requester"
    and em: "em \<in> set (normalizedEmails body)"
    and acct: "userByEmail users (normalizedEmails body) em = Some acct"
    and notMember: "\<not> isProjectMember p (accountId acct)"
    and ids: "distinct (map accountId users)"
  shows "statusCode (fst (inviteRoute e d users requester pid body)) = 200 \<and>
         (\<exists>p' res.
            snd (inviteRoute e d users requester pid body) pid = Some p' \<and>
            extra (fst (inviteRoute e d users requester pid body)) = Some res \<and>
            (\<exists>m \<in> set (members p').
               user m = accountId acct \<and> role m = RoleCollaborator \<and> addedBy m = requester) \<and>
            length (invites p) \<le> length (invites p') \<and>
            (\<forall>j < length (invites p).
               email (invites p ! j) = em \<and> inviteStatus (invites p ! j) = Pending \<longrightarrow>
               email (invites p' ! j) = em \<and> inviteStatus (invites p' ! j) = Accepted) \<and>
            (\<forall>i \<in> set (invites p'). email i = em \<longrightarrow> inviteStatus i \<noteq> Pending) \<and>
            em \<in> set (addedMembers res) \<and> em \<notin> set (invitationsSent res))"
proof -
  define es where "es = normalizedEmails body"
  define directory where "directory = userByEmail users es"
  define step where "step = inviteStep e p requester directory"
  define st0 where "st0 = \<lparr>projectInvites = invites p, membersToAdd = [], invitesToAdd = [],
      results = \<lparr>addedMembers = [], invitationsSent = [], alreadyMembers = [], alreadyInvited = [],
                 invalidEmails = filter (\<lambda>raw. normalizeEmail raw = []) (requestedEmails body)\<rparr>\<rparr>"
  have dist: "distinct es"
    by (simp add: es_def normalizedEmails_def distinct_setOrder)
  from em obtain pre post where split: "es = pre @ em # post"
    unfolding es_def [symmetric] by (auto dest: split_list)
  with dist have pre: "em \<notin> set pre" and post: "em \<notin> set post" by auto
  have other: "accountId a \<noteq> accountId acct" if "x \<noteq> em" "directory x = Some a" for x a
    using userByEmail_inj [OF ids, of es x a em acct] that acct
    by (simp add: directory_def es_def)
  define stA where "stA = foldl step st0 pre"
  define stB where "stB = step stA em"
  define stC where "stC = foldl step stB post"
  have A: "leavesAlone em (accountId acct) st0 stA"
    unfolding stA_def step_def using pre other by (rule foldl_inviteStep_other)
  have C: "leavesAlone em (accountId acct) stB stC"
    unfolding stC_def step_def using post other by (rule foldl_inviteStep_other)
  have final: "foldl step st0 es = stC"
    by (simp add: split stA_def stB_def stC_def)
  from A obtain msA isA asA ssA where A':
    "membersToAdd stA = msA" "\<forall>m \<in> set msA. user m \<noteq> accountId acct"
    "invitesToAdd stA = isA" "\<forall>i \<in> set isA. email i \<noteq> em"
    "length (projectInvites stA) = length (invites p)"
    "\<forall>j < length (invites p).
       email (projectInvites stA ! j) = email (invites p ! j) \<and>
       (email (invites p ! j) = em \<longrightarrow> projectInvites stA ! j = invites p ! j)"
    "invitationsSent (results stA) = ssA" "em \<notin> set ssA"
    unfolding leavesAlone_def st0_def by auto
  have notScheduled: "\<not> list_ex (\<lambda>m. user m = accountId acct) (membersToAdd stA)"
    using A'(1,2) by (auto simp: list_ex_iff)
  define newMember where "newMember = \<lparr>user = accountId acct, role = RoleCollaborator,
      addedBy = requester, joinedAt = now e\<rparr>"
  have B: "membersToAdd stB = msA @ [newMember]"
    "projectInvites stB = markInviteAccepted e em (projectInvites stA)"
    "invitesToAdd stB = isA"
    "addedMembers (results stB) = addedMembers (results stA) @ [em]"
    "invitationsSent (results stB) = ssA"
    using acct notScheduled notMember A'(1,3,7)
    by (simp_all add: stB_def step_def inviteStep_def directory_def es_def newMember_def)
  from C obtain msC isC asC ssC where C':
    "membersToAdd stC = membersToAdd stB @ msC"
    "invitesToAdd stC = invitesToAdd stB @ isC" "\<forall>i \<in> set isC. email i \<noteq> em"
    "length (projectInvites stC) = length (projectInvites stB)"
    "\<forall>j < length (projectInvites stB).
       email (projectInvites stC ! j) = email (projectInvites stB ! j) \<and>
       (email (projectInvites stB ! j) = em \<longrightarrow> projectInvites stC ! j = projectInvites stB ! j)"
    "addedMembers (results stC) = addedMembers (results stB) @ asC"
    "invitationsSent (results stC) = invitationsSent (results stB) @ ssC" "em \<notin> set ssC"
    unfolding leavesAlone_def by blast
  have lenB: "length (projectInvites stB) = length (invites p)"
    by (simp add: B(2) markInviteAccepted_def A'(5))
  have atB: "email (projectInvites stB ! j) = email (invites p ! j) \<and>
      (email (invites p ! j) = em \<longrightarrow>
         inviteStatus (projectInvites stB ! j) \<noteq> Pending \<and>
         (inviteStatus (invites p ! j) = Pending \<longrightarrow> inviteStatus (projectInvites stB ! j) = Accepted))"
    if "j < length (invites p)" for j
    using that A'(5,6) by (auto simp: B(2) markInviteAccepted_def)
  have atC: "email (projectInvites stC ! j) = email (invites p ! j) \<and>
      (email (invites p ! j) = em \<longrightarrow>
         inviteStatus (projectInvites stC ! j) \<noteq> Pending \<and>
         (inviteStatus (invites p ! j) = Pending \<longrightarrow> inviteStatus (projectInvites stC ! j) = Accepted))"
    if "j < length (invites p)" for j
    using that atB [OF that] C'(5) lenB by auto
  define p' where "p' = p\<lparr>members := members p @ membersToAdd stC,
      invites := projectInvites stC @ invitesToAdd stC\<rparr>"
  have ne: "normalizedEmails body \<noteq> []" using em by auto
  have route: "inviteRoute e d users requester pid body =
      (sendResponse 200
         (if invitationsSent (results stC) \<noteq> [] \<or> addedMembers (results stC) \<noteq> []
          then ''Invitations processed'' else ''No invitations were processed'')
         (Some (results stC)),
       d(pid \<mapsto> p'))"
    using ne p own final
    by (simp add: inviteRoute_def Let_def p'_def step_def directory_def es_def st0_def)
  have lenC: "length (projectInvites stC) = length (invites p)"
    using C'(4) lenB by simp
  have m: "\<exists>m \<in> set (members p').
      user m = accountId acct \<and> role m = RoleCollaborator \<and> addedBy m = requester"
    by (rule bexI [of _ newMember]) (simp_all add: p'_def C'(1) B(1) newMember_def)
  have i1: "length (invites p) \<le> length (invites p')"
    by (simp add: p'_def lenC)
  have i2: "\<forall>j < length (invites p).
      email (invites p ! j) = em \<and> inviteStatus (invites p ! j) = Pending \<longrightarrow>
      email (invites p' ! j) = em \<and> inviteStatus (invites p' ! j) = Accepted"
    using atC lenC by (auto simp: p'_def nth_append)
  have i3: "\<forall>i \<in> set (invites p'). email i = em \<longrightarrow> inviteStatus i \<noteq> Pending"
  proof (intro ballI impI)
    fix i assume i: "i \<in> set (invites p')" "email i = em"
    then have "i \<in> set (projectInvites stC) \<or> i \<in> set (invitesToAdd stC)"
      by (auto simp: p'_def)
    then show "inviteStatus i \<noteq> Pending"
    proof
      assume "i \<in> set (projectInvites stC)"
      then obtain j where "j < length (invites p)" "i = projectInvites stC ! j"
        using lenC by (auto simp: in_set_conv_nth)
      with atC i(2) show ?thesis by auto
    next
      assume "i \<in> set (invitesToAdd stC)"
      with C'(2,3) B(3) A'(4) i(2) show ?thesis by auto
    qed
  qed
  have r1: "em \<in> set (addedMembers (results stC))"
    by (simp add: C'(6) B(4))
  have r2: "em \<notin> set (invitationsSent (results stC))"
    using C'(7,8) B(5) A'(8) by simp
  show ?thesis
    unfolding route using m i1 i2 i3 r1 r2
    by (simp add: sendResponse_def)
qed


theorem invite_existing_account_witness:
  "findProject sampleDb ''p1'' ''u1'' = Some sampleProject \<and>
   isProjectOwner sampleProject ''u1'' \<and>
   ''bob@example.com'' \<in> set (normalizedEmails sampleInviteBody) \<and>
   userByEmail sampleUsers (normalizedEmails sampleInviteBody) ''bob@example.com'' =
     Some \<lparr>accountId = ''u2'', accountEmail = ''bob@example.com''\<rparr> \<and>
   \<not> isProjectMember sampleProject ''u2'' \<and>
   distinct (map accountId sampleUsers) \<and>
   statusCode (fst (inviteRoute sampleEnv sampleDb sampleUsers ''u1'' ''p1'' sampleInviteBody)) = 200 \<and>
   (\<exists>p' res.
      snd (inviteRoute sampleEnv sampleDb sampleUsers ''u1'' ''p1'' sampleInviteBody) ''p1'' = Some p' \<and>
      extra (fst (inviteRoute sampleEnv sampleDb sampleUsers ''u1'' ''p1'' sampleInviteBody)) = Some res \<and>
      (\<exists>m \<in> set (members p').
         user m = ''u2'' \<and> role m = RoleCollaborator \<and> addedBy m = ''u1'') \<and>
      (\<forall>i \<in> set (invites p'). email i = ''bob@example.com'' \<longrightarrow> inviteStatus i \<noteq> Pending) \<and>
      ''bob@example.com'' \<in> set (addedMembers res) \<and>
      ''bob@example.com'' \<notin> set (invitationsSent res))"
proof -
  have h1: "findProject sampleDb ''p1'' ''u1'' = Some sampleProject"
    by code_simp
  have h2: "isProjectOwner sampleProject ''u1''"
    by code_simp
  have h3: "''bob@example.com'' \<in> set (normalizedEmails sampleInviteBody)"
    by code_simp
  have h4: "userByEmail sampleUsers (normalizedEmails sampleInviteBody) ''bob@example.com'' =
     Some \<lparr>accountId = ''u2'', accountEmail = ''bob@example.com''\<rparr>"
    by code_simp
  have h5: "\<not> isProjectMember sampleProject
      (accountId \<lparr>accountId = ''u2'', accountEmail = ''bob@example.com''\<rparr>)"
    by code_simp
  have h6: "distinct (map accountId sampleUsers)"
    by code_simp
  from invite_existing_account [OF h1 h2 h3 h4 h5 h6, of sampleEnv] h1 h2 h3 h4 h5 h6
  show ?thesis
    by (simp del: set_simps) blast
qed

end
